theory Spec2Isabelle
  imports Main "HOL-Library.Word"
begin

section \<open>The Pseudo language server: completion and diagnostics\<close>

text \<open>
  A shallow embedding of \<^verbatim>\<open>src/language-server.ts\<close>: the keyword catalog
  \<^verbatim>\<open>KEYWORDS\<close>, the completion handler \<^verbatim>\<open>onCompletion\<close>, the resolve handler
  \<^verbatim>\<open>onCompletionResolve\<close> and the scanner \<^verbatim>\<open>validateTextDocument\<close>.
  Calls of \<^verbatim>\<open>connection.console.log\<close> only write to the client's log and are left out.
\<close>

subsection \<open>JavaScript strings\<close>

text \<open>
  A JavaScript string is a sequence of UTF-16 code units; \<^verbatim>\<open>length\<close>,
  \<^verbatim>\<open>substring\<close>, \<^verbatim>\<open>indexOf\<close> and regular expressions without the \<^verbatim>\<open>u\<close> flag all
  count code units.
\<close>

type_synonym jschar = "16 word"
type_synonym jsstring = "jschar list"

text \<open>The code units of an ASCII literal of the source.\<close>

definition utf16 :: "string \<Rightarrow> jsstring" where
  "utf16 s = map (\<lambda>c. word_of_nat (of_char c)) s"

text \<open>
  \<^verbatim>\<open>s.substring(start, end)\<close>: both indices are clamped to \<^verbatim>\<open>[0, s.length]\<close> and
  swapped when \<^verbatim>\<open>start > end\<close>.
\<close>

definition substring :: "jsstring \<Rightarrow> int \<Rightarrow> int \<Rightarrow> jsstring" where
  "substring s start fin =
     (let len = int (length s);
          a = min (max start 0) len;
          b = min (max fin 0) len;
          from = min a b;
          to = max a b
      in take (nat (to - from)) (drop (nat from) s))"

text \<open>\<^verbatim>\<open>s.startsWith(w)\<close>.\<close>

definition startsWith :: "jsstring \<Rightarrow> jsstring \<Rightarrow> bool" where
  "startsWith s w = (take (length w) s = w)"

text \<open>\<^verbatim>\<open>s.indexOf(w)\<close>: the index of the first occurrence of \<^verbatim>\<open>w\<close>, or \<^verbatim>\<open>-1\<close>.\<close>

fun indexOfFrom :: "nat \<Rightarrow> jsstring \<Rightarrow> jsstring \<Rightarrow> int" where
  "indexOfFrom k [] w = (if w = [] then int k else - 1)"
| "indexOfFrom k (c # cs) w =
     (if startsWith (c # cs) w then int k else indexOfFrom (Suc k) cs w)"

definition indexOf :: "jsstring \<Rightarrow> jsstring \<Rightarrow> int" where
  "indexOf s w = indexOfFrom 0 s w"

text \<open>\<^verbatim>\<open>s.includes(w)\<close>.\<close>

definition includes' :: "jsstring \<Rightarrow> jsstring \<Rightarrow> bool" where
  "includes' s w = (indexOf s w \<noteq> - 1)"

text \<open>\<^verbatim>\<open>s.split(sep)\<close> for a separator of one code unit; the result is never empty.\<close>

fun split :: "jschar \<Rightarrow> jsstring \<Rightarrow> jsstring list" where
  "split sep [] = [[]]"
| "split sep (c # cs) =
     (if c = sep then [] # split sep cs
      else (case split sep cs of [] \<Rightarrow> [[c]] | l # ls \<Rightarrow> (c # l) # ls))"

text \<open>
  \<^verbatim>\<open>xs[i]\<close> on an array: \<^verbatim>\<open>undefined\<close> (here \<open>None\<close>) when \<^verbatim>\<open>i\<close> is not an index
  of the array.
\<close>

definition at_index :: "'a list \<Rightarrow> int \<Rightarrow> 'a option" where
  "at_index xs i = (if 0 \<le> i \<and> i < int (length xs) then Some (xs ! nat i) else None)"

text \<open>A property access on \<^verbatim>\<open>undefined\<close> throws.\<close>

datatype fault = TypeError

subsection \<open>Regular expressions\<close>

text \<open>
  The character classes of the source's patterns: \<^verbatim>\<open>\s\<close> (white space and line
  terminators of ECMAScript), \<^verbatim>\<open>\w\<close> and \<^verbatim>\<open>[^:]\<close>.
\<close>

definition white_space :: "jschar list" where
  "white_space =
     [0x0009, 0x000A, 0x000B, 0x000C, 0x000D, 0x0020, 0x00A0, 0x1680,
      0x2000, 0x2001, 0x2002, 0x2003, 0x2004, 0x2005, 0x2006, 0x2007, 0x2008, 0x2009, 0x200A,
      0x2028, 0x2029, 0x202F, 0x205F, 0x3000, 0xFEFF]"

definition isSpace :: "jschar \<Rightarrow> bool" where
  "isSpace c = (c \<in> set white_space)"

definition isWord :: "jschar \<Rightarrow> bool" where
  "isWord c =
     (let n = unat c
      in (48 \<le> n \<and> n \<le> 57) \<or> (65 \<le> n \<and> n \<le> 90) \<or> (97 \<le> n \<and> n \<le> 122) \<or> n = 95)"

definition colon :: jschar where
  "colon = 0x3A"

definition notColon :: "jschar \<Rightarrow> bool" where
  "notColon c = (c \<noteq> colon)"

text \<open>
  The fragment of regular expressions the source uses. Every quantifier of the source
  (\<^verbatim>\<open>\s*\<close>, \<^verbatim>\<open>\s+\<close>, \<^verbatim>\<open>\w*\<close>, \<^verbatim>\<open>[^:]+\<close>) is greedy and applies to one character
  class; groups are numbered by their opening parenthesis.
\<close>

datatype regex =
    Lit jsstring
  | Cls "jschar \<Rightarrow> bool"
  | Star "jschar \<Rightarrow> bool"
  | Plus "jschar \<Rightarrow> bool"
  | Bol
  | Eol
  | Seq regex regex
  | Alt regex regex
  | Grp nat regex

fun seqs :: "regex list \<Rightarrow> regex" where
  "seqs [] = Lit []"
| "seqs [r] = r"
| "seqs (r # rs) = Seq r (seqs rs)"

fun alts :: "regex list \<Rightarrow> regex" where
  "alts [] = Cls (\<lambda>_. False)"
| "alts [r] = r"
| "alts (r # rs) = Alt r (alts rs)"

text \<open>
  A backtracking matcher. A state is the index reached, the input left from there and
  the groups captured so far. \<open>run r st\<close> lists the states in which \<open>r\<close> can end when
  started in \<open>st\<close>, in the order in which backtracking tries them: the longest repetition
  first, the left alternative first.
\<close>

type_synonym mstate = "nat \<times> jsstring \<times> (nat \<rightharpoonup> jsstring)"

fun star :: "(jschar \<Rightarrow> bool) \<Rightarrow> mstate \<Rightarrow> mstate list" where
  "star p (i, [], g) = [(i, [], g)]"
| "star p (i, c # cs, g) =
     (if p c then star p (Suc i, cs, g) @ [(i, c # cs, g)] else [(i, c # cs, g)])"

fun run :: "regex \<Rightarrow> mstate \<Rightarrow> mstate list" where
  "run (Lit w) (i, cs, g) =
     (if startsWith cs w then [(i + length w, drop (length w) cs, g)] else [])"
| "run (Cls p) (i, cs, g) =
     (case cs of [] \<Rightarrow> [] | c # cs' \<Rightarrow> if p c then [(Suc i, cs', g)] else [])"
| "run (Star p) st = star p st"
| "run (Plus p) (i, cs, g) =
     (case cs of [] \<Rightarrow> [] | c # cs' \<Rightarrow> if p c then star p (Suc i, cs', g) else [])"
| "run Bol (i, cs, g) = (if i = 0 then [(i, cs, g)] else [])"
| "run Eol (i, cs, g) = (if cs = [] then [(i, cs, g)] else [])"
| "run (Seq a b) st = concat (map (run b) (run a st))"
| "run (Alt a b) st = run a st @ run b st"
| "run (Grp n r) (i, cs, g) =
     map (\<lambda>(j, cs', g'). (j, cs', g'(n \<mapsto> take (j - i) cs))) (run r (i, cs, g))"

text \<open>
  \<^verbatim>\<open>re.exec(s)\<close> for a pattern without flags: the start indices \<open>0, 1, ..., length s\<close>
  are tried in turn, and the first state the matcher reaches from the first index that
  matches is the result: its start index, its end index and its groups.
\<close>

fun search :: "regex \<Rightarrow> nat \<Rightarrow> jsstring \<Rightarrow> (nat \<times> nat \<times> (nat \<rightharpoonup> jsstring)) option" where
  "search r k [] =
     (case run r (k, [], Map.empty) of [] \<Rightarrow> None | (j, _, g) # _ \<Rightarrow> Some (k, j, g))"
| "search r k (c # cs) =
     (case run r (k, c # cs, Map.empty) of
        [] \<Rightarrow> search r (Suc k) cs
      | (j, _, g) # _ \<Rightarrow> Some (k, j, g))"

definition exec :: "regex \<Rightarrow> jsstring \<Rightarrow> (nat \<times> nat \<times> (nat \<rightharpoonup> jsstring)) option" where
  "exec r s = search r 0 s"

text \<open>\<^verbatim>\<open>re.test(s)\<close>.\<close>

definition test :: "regex \<Rightarrow> jsstring \<Rightarrow> bool" where
  "test r s = (exec r s \<noteq> None)"

text \<open>
  \<^verbatim>\<open>s.match(re)\<close> for a pattern without the \<^verbatim>\<open>g\<close> flag is \<^verbatim>\<open>re.exec(s)\<close>; the
  result array holds the groups at their numbers (\<^verbatim>\<open>undefined\<close> for a group that took
  no part).
\<close>

definition match :: "jsstring \<Rightarrow> regex \<Rightarrow> (nat \<rightharpoonup> jsstring) option" where
  "match s r = (case exec r s of None \<Rightarrow> None | Some (k, j, g) \<Rightarrow> Some g)"

subsection \<open>The keyword catalog\<close>

definition KEYWORDS_declarations :: "jsstring list" where
  "KEYWORDS_declarations = map utf16
     [''app'', ''domain'', ''feature'', ''model'', ''component'', ''page'', ''request'',
      ''response'', ''route'', ''auth'', ''guard'', ''form'', ''service'', ''repository'',
      ''config'', ''event'', ''state'']"

definition KEYWORDS_types :: "jsstring list" where
  "KEYWORDS_types = map utf16
     [''string'', ''number'', ''boolean'', ''date'', ''email'', ''url'', ''uuid'', ''array'',
      ''object'']"

definition KEYWORDS_modifiers :: "jsstring list" where
  "KEYWORDS_modifiers = map utf16
     [''required'', ''optional'', ''unique'', ''indexed'', ''default'']"

definition KEYWORDS_actions :: "jsstring list" where
  "KEYWORDS_actions = map utf16
     [''create'', ''update'', ''delete'', ''query'', ''list'', ''show'', ''hide'', ''toggle'',
      ''validate'', ''redirect'', ''authenticate'', ''authorize'', ''transform'', ''filter'',
      ''sort'', ''paginate'']"

definition KEYWORDS_control :: "jsstring list" where
  "KEYWORDS_control = map utf16
     [''if'', ''else'', ''when'', ''for each'', ''try'', ''catch'', ''return'']"

definition KEYWORDS_properties :: "jsstring list" where
  "KEYWORDS_properties = map utf16
     [''path'', ''guard'', ''description'', ''language'', ''framework'', ''database'',
      ''styling'', ''components'', ''authentication'']"

subsection \<open>Protocol data\<close>

text \<open>
  The types of the language-server protocol that the handlers build and read.
  \<^verbatim>\<open>CompletionItemKind\<close> has the protocol's 25 kinds, in the order of their numbers
  1 to 25; every field of a completion item but \<^verbatim>\<open>label\<close> is optional, and its
  documentation is a string or a markup content (a kind and a value).
\<close>

datatype CompletionItemKind =
    Text | Method | Function | Constructor | Field' | Variable | Class | Interface
  | Module | Property' | Unit | Value | Enum | Keyword | Snippet | Color | File | Reference
  | Folder | EnumMember | Constant | Struct | Event | Operator | TypeParameter

datatype Documentation = DocString jsstring | MarkupContent jsstring jsstring

record CompletionItem =
  label :: jsstring
  kind :: "CompletionItemKind option"
  detail :: "jsstring option"
  documentation :: "Documentation option"
  insertText :: "jsstring option"
  insertTextFormat :: "int option"

text \<open>
  The text a client inserts for an item, by the protocol's rule for the optional field
  \<^verbatim>\<open>insertText\<close>: when the field is omitted, the label is used as the insert text.
\<close>

definition insertedText :: "'a CompletionItem_scheme \<Rightarrow> jsstring" where
  "insertedText item = (case insertText item of None \<Rightarrow> label item | Some t \<Rightarrow> t)"

record Position =
  line :: int
  character :: int

record Range =
  range_start :: Position
  range_end :: Position

datatype DiagnosticSeverity = Error | Warning | Information | Hint

record Diagnostic =
  severity :: DiagnosticSeverity
  drange :: Range
  message :: jsstring
  source :: jsstring

record TextDocument =
  uri :: jsstring
  getText :: jsstring

record TextDocumentPositionParams =
  textDocument_uri :: jsstring
  position :: Position

subsection \<open>Completion\<close>

text \<open>The three patterns of the handler: \<^verbatim>\<open>/^\s*$/\<close>, \<^verbatim>\<open>/:\s*$/\<close>, \<^verbatim>\<open>/:\s*\w*$/\<close>.\<close>

definition lineStartRe :: regex where
  "lineStartRe = seqs [Bol, Star isSpace, Eol]"

definition afterColonRe :: regex where
  "afterColonRe = seqs [Lit (utf16 '':''), Star isSpace, Eol]"

definition typeRe :: regex where
  "typeRe = seqs [Lit (utf16 '':''), Star isSpace, Star isWord, Eol]"

text \<open>The items the handler pushes, one function for each \<^verbatim>\<open>forEach\<close> callback.\<close>

definition declarationItem :: "jsstring \<Rightarrow> CompletionItem" where
  \<open>declarationItem keyword =
     \<lparr>label = keyword,
      kind = Some Keyword,
      detail = Some (keyword @ utf16 '' declaration''),
      documentation = None,
      insertText = Some (if keyword = utf16 ''app''
                         then keyword @ utf16 '' "${1:ProjectName}":''
                         else keyword @ utf16 '' "${1:Name}":''),
      insertTextFormat = Some 2\<rparr>\<close>

definition propertyItem :: "jsstring \<Rightarrow> CompletionItem" where
  "propertyItem prop =
     \<lparr>label = prop, kind = Some Property', detail = Some (prop @ utf16 '' property''),
      documentation = None, insertText = None, insertTextFormat = None\<rparr>"

definition actionItem :: "jsstring \<Rightarrow> CompletionItem" where
  "actionItem action =
     \<lparr>label = action, kind = Some Method, detail = Some (action @ utf16 '' action''),
      documentation = None, insertText = None, insertTextFormat = None\<rparr>"

definition typeItem :: "jsstring \<Rightarrow> CompletionItem" where
  "typeItem type =
     \<lparr>label = type, kind = Some TypeParameter, detail = Some (type @ utf16 '' type''),
      documentation = None, insertText = None, insertTextFormat = None\<rparr>"

definition modifierItem :: "jsstring \<Rightarrow> CompletionItem" where
  "modifierItem modifier =
     \<lparr>label = modifier, kind = Some Keyword, detail = Some (modifier @ utf16 '' modifier''),
      documentation = None, insertText = None, insertTextFormat = None\<rparr>"

text \<open>
  The part of \<^verbatim>\<open>onCompletion\<close> after \<^verbatim>\<open>beforeCursor\<close> is known: four blocks push
  onto \<^verbatim>\<open>completions\<close> in turn, the first three each under its own test.
\<close>

definition completions :: "jsstring \<Rightarrow> CompletionItem list" where
  "completions beforeCursor =
     (let c0 = [];
          c1 = (if test lineStartRe beforeCursor
                then c0 @ map declarationItem KEYWORDS_declarations else c0);
          c2 = (if test afterColonRe beforeCursor
                then (c1 @ map propertyItem KEYWORDS_properties) @ map actionItem KEYWORDS_actions
                else c1);
          c3 = (if test typeRe beforeCursor
                then c2 @ map typeItem KEYWORDS_types else c2)
      in c3 @ map modifierItem KEYWORDS_modifiers)"

definition newline :: jschar where
  "newline = 0x0A"

text \<open>
  \<^verbatim>\<open>onCompletion\<close>. \<^verbatim>\<open>documents.get\<close> is a map from uris to documents. When
  \<^verbatim>\<open>position.line\<close> is no index of the array of lines, \<^verbatim>\<open>lineText\<close> is
  \<^verbatim>\<open>undefined\<close> and \<^verbatim>\<open>lineText.substring\<close> throws.
\<close>

definition onCompletion ::
  "(jsstring \<rightharpoonup> TextDocument) \<Rightarrow> TextDocumentPositionParams \<Rightarrow> fault + CompletionItem list"
where
  "onCompletion documents params =
     (case documents (textDocument_uri params) of
        None \<Rightarrow> Inr []
      | Some document \<Rightarrow>
          (let text = getText document;
               pos = position params
           in case at_index (split newline text) (line pos) of
                None \<Rightarrow> Inl TypeError
              | Some lineText \<Rightarrow> Inr (completions (substring lineText 0 (character pos)))))"

text \<open>\<^verbatim>\<open>onCompletionResolve\<close>, on an item with any further fields.\<close>

definition onCompletionResolve :: "'a CompletionItem_scheme \<Rightarrow> 'a CompletionItem_scheme" where
  "onCompletionResolve item =
     (if kind item = Some Keyword
      then item\<lparr>documentation :=
             Some (DocString (label item @ utf16 '' - A pseudolang keyword''))\<rparr>
      else item)"

subsection \<open>Validation\<close>

text \<open>
  The pattern of \<^verbatim>\<open>validateTextDocument\<close>:
  \<^verbatim>\<open>/^\s*(app|domain|...|state)\s+([^:]+):\s*$/\<close>.
\<close>

definition declarationRe :: regex where
  "declarationRe =
     seqs [Bol, Star isSpace,
           Grp 1 (alts (map (\<lambda>w. Lit (utf16 w))
             [''app'', ''domain'', ''feature'', ''model'', ''component'', ''page'', ''request'',
              ''response'', ''route'', ''auth'', ''guard'', ''form'', ''service'',
              ''repository'', ''config'', ''event'', ''state''])),
           Plus isSpace, Grp 2 (Plus notColon), Lit (utf16 '':''), Star isSpace, Eol]"

text \<open>The part of the pattern from the name on: \<^verbatim>\<open>([^:]+):\s*$\<close>.\<close>

abbreviation nameTail :: regex where
  "nameTail \<equiv> Seq (Grp 2 (Plus notColon)) (Seq (Lit [colon]) (Seq (Star isSpace) Eol))"

text \<open>
  The callback of \<^verbatim>\<open>lines.forEach\<close>, returning the diagnostics it pushes. A group
  that is \<^verbatim>\<open>undefined\<close> prints as such in the template literal, and
  \<^verbatim>\<open>name.includes\<close> throws on it.
\<close>

definition checkLine :: "int \<Rightarrow> jsstring \<Rightarrow> fault + Diagnostic list" where
  \<open>checkLine lineNumber ln =
     (case match ln declarationRe of
        None \<Rightarrow> Inr []
      | Some declarationMatch \<Rightarrow>
          (let keyword = (case declarationMatch 1 of None \<Rightarrow> utf16 ''undefined'' | Some k \<Rightarrow> k)
           in case declarationMatch 2 of
                None \<Rightarrow> Inl TypeError
              | Some name \<Rightarrow>
                  if includes' name (utf16 '' '') \<and> \<not> startsWith name (utf16 ''"'')
                  then Inr
                    [\<lparr>severity = Warning,
                      drange =
                        \<lparr>range_start = \<lparr>line = lineNumber, character = indexOf ln name\<rparr>,
                         range_end = \<lparr>line = lineNumber,
                                      character = indexOf ln name + int (length name)\<rparr>\<rparr>,
                      message = utf16 ''Multi-word '' @ keyword
                                  @ utf16 '' names should be quoted: "'' @ name @ utf16 ''"'',
                      source = utf16 ''pseudo-lang''\<rparr>]
                  else Inr []))\<close>

fun forEachLine :: "int \<Rightarrow> jsstring list \<Rightarrow> Diagnostic list \<Rightarrow> fault + Diagnostic list" where
  "forEachLine lineNumber [] diagnostics = Inr diagnostics"
| "forEachLine lineNumber (ln # lns) diagnostics =
     (case checkLine lineNumber ln of
        Inl e \<Rightarrow> Inl e
      | Inr ds \<Rightarrow> forEachLine (lineNumber + 1) lns (diagnostics @ ds))"

text \<open>
  \<^verbatim>\<open>validateTextDocument\<close>, returning what it hands to
  \<^verbatim>\<open>connection.sendDiagnostics\<close>: the uri and the diagnostics. (Its \<^verbatim>\<open>pattern\<close>,
  \<^verbatim>\<open>m\<close> and \<^verbatim>\<open>problems\<close> are never used.)
\<close>

definition validateTextDocument :: "TextDocument \<Rightarrow> fault + jsstring \<times> Diagnostic list" where
  "validateTextDocument textDocument =
     (let text = getText textDocument;
          lines = split newline text
      in case forEachLine 0 lines [] of
           Inl e \<Rightarrow> Inl e
         | Inr diagnostics \<Rightarrow> Inr (uri textDocument, diagnostics))"

subsection \<open>The classification rules in the specification's words\<close>

text \<open>
  The three conditional rules of the specification, stated on the prefix without any
  pattern: \<^emph>\<open>LineStart\<close>, the prefix is empty or whitespace-only; \<^emph>\<open>AfterColon\<close>, the
  prefix ends with a colon optionally followed by whitespace; \<^emph>\<open>TypePosition\<close>, the
  prefix ends with a colon, optional whitespace, then zero or more word characters.
\<close>

definition LineStart :: "jsstring \<Rightarrow> bool" where
  "LineStart prefix = (\<forall>c\<in>set prefix. isSpace c)"

definition AfterColon :: "jsstring \<Rightarrow> bool" where
  "AfterColon prefix = (\<exists>a w. prefix = a @ [colon] @ w \<and> (\<forall>c\<in>set w. isSpace c))"

definition TypePosition :: "jsstring \<Rightarrow> bool" where
  "TypePosition prefix =
     (\<exists>a w t. prefix = a @ [colon] @ w @ t \<and> (\<forall>c\<in>set w. isSpace c) \<and> (\<forall>c\<in>set t. isWord c))"

text \<open>
  The declaration-header shape of the specification: optional leading whitespace, a
  declaration keyword, one or more whitespace characters, a name portion without a
  colon, then a colon and only whitespace to the end of the line.
\<close>

definition headerShape :: "jsstring \<Rightarrow> jsstring \<Rightarrow> jsstring \<Rightarrow> bool" where
  "headerShape ln keyword name =
     (\<exists>ws ws' ws''. ln = ws @ keyword @ ws' @ name @ [colon] @ ws''
        \<and> (\<forall>c\<in>set ws. isSpace c)
        \<and> keyword \<in> set KEYWORDS_declarations
        \<and> ws' \<noteq> [] \<and> (\<forall>c\<in>set ws'. isSpace c)
        \<and> name \<noteq> [] \<and> colon \<notin> set name
        \<and> (\<forall>c\<in>set ws''. isSpace c))"

section \<open>The matcher on the handler's patterns\<close>

text \<open>
  What \<open>star\<close> can reach: it may stop after any prefix of the input whose characters are
  all in the class.
\<close>

lemma star_mem:
  "(j, cs', g') \<in> set (star p (i, cs, g))
     \<longleftrightarrow> g' = g \<and> (\<exists>pre. cs = pre @ cs' \<and> (\<forall>c\<in>set pre. p c) \<and> j = i + length pre)"
proof (induction cs arbitrary: i)
  case Nil
  then show ?case by auto
next
  case (Cons c cs)
  show ?case
  proof (cases "p c")
    case True
    have "(\<exists>pre. c # cs = pre @ cs' \<and> (\<forall>x\<in>set pre. p x) \<and> j = i + length pre)
          \<longleftrightarrow> (c # cs = cs' \<and> j = i)
              \<or> (\<exists>pre'. cs = pre' @ cs' \<and> (\<forall>x\<in>set pre'. p x) \<and> j = Suc i + length pre')"
      (is "?L \<longleftrightarrow> ?A \<or> ?B")
    proof
      assume ?L
      then obtain pre where pre: "c # cs = pre @ cs'" "\<forall>x\<in>set pre. p x" "j = i + length pre"
        by blast
      show "?A \<or> ?B"
      proof (cases pre)
        case Nil
        with pre show ?thesis by simp
      next
        case (Cons x pre')
        with pre have "cs = pre' @ cs' \<and> (\<forall>x\<in>set pre'. p x) \<and> j = Suc i + length pre'"
          by simp
        then show ?thesis by blast
      qed
    next
      assume "?A \<or> ?B"
      then show ?L
      proof
        assume ?A
        then have "c # cs = [] @ cs' \<and> (\<forall>x\<in>set []. p x) \<and> j = i + length ([]::jsstring)"
          by simp
        then show ?L by blast
      next
        assume ?B
        then obtain pre' where "cs = pre' @ cs'" "\<forall>x\<in>set pre'. p x" "j = Suc i + length pre'"
          by blast
        with True have "c # cs = (c # pre') @ cs' \<and> (\<forall>x\<in>set (c # pre'). p x)
                          \<and> j = i + length (c # pre')"
          by simp
        then show ?L by blast
      qed
    qed
    with True Cons.IH [of "Suc i"] show ?thesis
      by auto
  next
    case False
    have "(\<exists>pre. c # cs = pre @ cs' \<and> (\<forall>x\<in>set pre. p x) \<and> j = i + length pre)
          \<longleftrightarrow> (c # cs = cs' \<and> j = i)"
      (is "?L \<longleftrightarrow> ?A")
    proof
      assume ?L
      then obtain pre where pre: "c # cs = pre @ cs'" "\<forall>x\<in>set pre. p x" "j = i + length pre"
        by blast
      show ?A
      proof (cases pre)
        case Nil
        with pre show ?thesis by simp
      next
        case (Cons x pre')
        with pre False show ?thesis by simp
      qed
    next
      assume ?A
      then have "c # cs = [] @ cs' \<and> (\<forall>x\<in>set []. p x) \<and> j = i + length ([]::jsstring)"
        by simp
      then show ?L by blast
    qed
    with False show ?thesis
      by auto
  qed
qed


lemma search_None:
  "search r k cs = None \<longleftrightarrow> (\<forall>n\<le>length cs. run r (k + n, drop n cs, Map.empty) = [])"
proof (induction cs arbitrary: k)
  case Nil
  then show ?case by (simp split: list.splits)
next
  case (Cons c cs)
  have step: "(\<forall>n\<le>length (c # cs). run r (k + n, drop n (c # cs), Map.empty) = [])
          \<longleftrightarrow> run r (k, c # cs, Map.empty) = []
              \<and> (\<forall>m\<le>length cs. run r (Suc k + m, drop m cs, Map.empty) = [])"
    (is "?L \<longleftrightarrow> ?A \<and> ?B")
  proof
    assume l: ?L
    have ?A using l [rule_format, of 0] by simp
    moreover have ?B
    proof (intro allI impI)
      fix m assume "m \<le> length cs"
      then show "run r (Suc k + m, drop m cs, Map.empty) = []"
        using l [rule_format, of "Suc m"] by simp
    qed
    ultimately show "?A \<and> ?B" ..
  next
    assume ab: "?A \<and> ?B"
    show ?L
    proof (intro allI impI)
      fix n assume n: "n \<le> length (c # cs)"
      show "run r (k + n, drop n (c # cs), Map.empty) = []"
      proof (cases n)
        case 0
        with ab show ?thesis by simp
      next
        case (Suc m)
        with n ab [THEN conjunct2, rule_format, of m] show ?thesis by simp
      qed
    qed
  qed
  show ?case
  proof (cases "run r (k, c # cs, Map.empty)")
    case Nil
    with Cons.IH [of "Suc k"] step show ?thesis by simp
  next
    case (Cons st sts)
    with step show ?thesis
      by (simp split: prod.splits)
  qed
qed

lemma test_iff:
  "test r s \<longleftrightarrow> (\<exists>n\<le>length s. run r (n, drop n s, Map.empty) \<noteq> [])"
  using search_None [of r 0 s] by (simp add: test_def exec_def)

lemma run_Seq_nonempty:
  "run (Seq a b) st \<noteq> [] \<longleftrightarrow> (\<exists>st'\<in>set (run a st). run b st' \<noteq> [])"
  by auto

lemma utf16_colon: "utf16 '':'' = [colon]"
  by (simp add: utf16_def colon_def)

lemma colon_not_space: "\<not> isSpace colon"
  by (simp add: isSpace_def colon_def white_space_def)

lemma colon_not_word: "\<not> isWord colon"
  by (simp add: isWord_def colon_def)

lemma star_Eol:
  "(\<exists>st'\<in>set (star p (i, cs, g)). run Eol st' \<noteq> []) \<longleftrightarrow> (\<forall>c\<in>set cs. p c)"
proof
  assume "\<exists>st'\<in>set (star p (i, cs, g)). run Eol st' \<noteq> []"
  then obtain j cs' g' where "(j, cs', g') \<in> set (star p (i, cs, g))" "run Eol (j, cs', g') \<noteq> []"
    by (metis prod_cases3)
  then have "(j, [], g') \<in> set (star p (i, cs, g))"
    by (simp split: if_splits)
  then show "\<forall>c\<in>set cs. p c"
    by (simp add: star_mem)
next
  assume "\<forall>c\<in>set cs. p c"
  then have "(i + length cs, [], g) \<in> set (star p (i, cs, g))"
    by (simp add: star_mem)
  moreover have "run Eol (i + length cs, [], g) \<noteq> []"
    by simp
  ultimately show "\<exists>st'\<in>set (star p (i, cs, g)). run Eol st' \<noteq> []"
    by blast
qed

lemma run_lineStartRe:
  "run lineStartRe (n, cs, g) \<noteq> [] \<longleftrightarrow> n = 0 \<and> (\<forall>c\<in>set cs. isSpace c)"
proof -
  have "run lineStartRe (n, cs, g) \<noteq> []
          \<longleftrightarrow> n = 0 \<and> (\<exists>st'\<in>set (star isSpace (n, cs, g)). run Eol st' \<noteq> [])"
    unfolding lineStartRe_def seqs.simps run_Seq_nonempty by simp
  then show ?thesis
    by (simp add: star_Eol)
qed

lemma test_lineStartRe: "test lineStartRe s = LineStart s"
proof -
  have "test lineStartRe s \<longleftrightarrow> (\<exists>n\<le>length s. n = 0 \<and> (\<forall>c\<in>set (drop n s). isSpace c))"
    by (simp add: test_iff run_lineStartRe)
  also have "\<dots> \<longleftrightarrow> (\<forall>c\<in>set s. isSpace c)"
    by auto
  finally show ?thesis
    by (simp add: LineStart_def)
qed

lemma startsWith_single: "startsWith cs [c] \<longleftrightarrow> (\<exists>cs'. cs = c # cs')"
  by (cases cs) (auto simp: startsWith_def)

lemma run_afterColonRe:
  "run afterColonRe (n, cs, g) \<noteq> [] \<longleftrightarrow> (\<exists>w. cs = colon # w \<and> (\<forall>c\<in>set w. isSpace c))"
proof -
  have "run afterColonRe (n, cs, g) \<noteq> []
          \<longleftrightarrow> startsWith cs [colon]
              \<and> (\<exists>st'\<in>set (star isSpace (n + 1, drop 1 cs, g)). run Eol st' \<noteq> [])"
    unfolding afterColonRe_def seqs.simps run_Seq_nonempty utf16_colon by simp
  then show ?thesis
    by (auto simp: star_Eol startsWith_single)
qed

lemma drop_eq_Cons_iff:
  "(\<exists>n\<le>length s. drop n s = c # w) \<longleftrightarrow> (\<exists>a. s = a @ c # w)"
proof
  assume "\<exists>n\<le>length s. drop n s = c # w"
  then obtain n where "drop n s = c # w" by blast
  then have "s = take n s @ c # w"
    by (metis append_take_drop_id)
  then show "\<exists>a. s = a @ c # w" ..
next
  assume "\<exists>a. s = a @ c # w"
  then obtain a where "s = a @ c # w" ..
  then have "length a \<le> length s \<and> drop (length a) s = c # w"
    by simp
  then show "\<exists>n\<le>length s. drop n s = c # w" by blast
qed

lemma test_afterColonRe: "test afterColonRe s = AfterColon s"
proof -
  have "test afterColonRe s
          \<longleftrightarrow> (\<exists>w. (\<exists>n\<le>length s. drop n s = colon # w) \<and> (\<forall>c\<in>set w. isSpace c))"
    by (auto simp: test_iff run_afterColonRe)
  also have "\<dots> \<longleftrightarrow> (\<exists>w a. s = a @ colon # w \<and> (\<forall>c\<in>set w. isSpace c))"
    unfolding drop_eq_Cons_iff by blast
  finally show ?thesis
    unfolding AfterColon_def by auto
qed


lemma star_star_Eol:
  "(\<exists>st'\<in>set (star p (i, cs, g)). \<exists>st''\<in>set (star q st'). run Eol st'' \<noteq> [])
     \<longleftrightarrow> (\<exists>w t. cs = w @ t \<and> (\<forall>c\<in>set w. p c) \<and> (\<forall>c\<in>set t. q c))"
proof
  assume "\<exists>st'\<in>set (star p (i, cs, g)). \<exists>st''\<in>set (star q st'). run Eol st'' \<noteq> []"
  then obtain j t g' where st': "(j, t, g') \<in> set (star p (i, cs, g))"
    and "\<exists>st''\<in>set (star q (j, t, g')). run Eol st'' \<noteq> []"
    by (metis prod_cases3)
  then have t: "\<forall>c\<in>set t. q c"
    by (simp only: star_Eol)
  from st' obtain w where "cs = w @ t" "\<forall>c\<in>set w. p c"
    by (auto simp: star_mem)
  with t show "\<exists>w t. cs = w @ t \<and> (\<forall>c\<in>set w. p c) \<and> (\<forall>c\<in>set t. q c)"
    by blast
next
  assume "\<exists>w t. cs = w @ t \<and> (\<forall>c\<in>set w. p c) \<and> (\<forall>c\<in>set t. q c)"
  then obtain w t where wt: "cs = w @ t" "\<forall>c\<in>set w. p c" "\<forall>c\<in>set t. q c"
    by blast
  then have "(i + length w, t, g) \<in> set (star p (i, cs, g))"
    by (simp add: star_mem)
  moreover have "\<exists>st''\<in>set (star q (i + length w, t, g)). run Eol st'' \<noteq> []"
    using wt(3) by (simp only: star_Eol)
  ultimately show "\<exists>st'\<in>set (star p (i, cs, g)). \<exists>st''\<in>set (star q st'). run Eol st'' \<noteq> []"
    by blast
qed

lemma run_typeRe:
  "run typeRe (n, cs, g) \<noteq> []
     \<longleftrightarrow> (\<exists>w t. cs = colon # w @ t \<and> (\<forall>c\<in>set w. isSpace c) \<and> (\<forall>c\<in>set t. isWord c))"
proof -
  have "run typeRe (n, cs, g) \<noteq> []
          \<longleftrightarrow> startsWith cs [colon]
              \<and> (\<exists>st'\<in>set (star isSpace (n + 1, drop 1 cs, g)).
                    \<exists>st''\<in>set (star isWord st'). run Eol st'' \<noteq> [])"
    unfolding typeRe_def seqs.simps run_Seq_nonempty utf16_colon by simp
  then have *: "run typeRe (n, cs, g) \<noteq> []
          \<longleftrightarrow> (\<exists>cs'. cs = colon # cs')
              \<and> (\<exists>w t. drop 1 cs = w @ t \<and> (\<forall>c\<in>set w. isSpace c) \<and> (\<forall>c\<in>set t. isWord c))"
    unfolding star_star_Eol startsWith_single .
  show ?thesis
  proof
    assume "run typeRe (n, cs, g) \<noteq> []"
    with * obtain cs' w t where "cs = colon # cs'" "drop 1 cs = w @ t"
      "\<forall>c\<in>set w. isSpace c" "\<forall>c\<in>set t. isWord c"
      by blast
    then have "cs = colon # w @ t \<and> (\<forall>c\<in>set w. isSpace c) \<and> (\<forall>c\<in>set t. isWord c)"
      by simp
    then show "\<exists>w t. cs = colon # w @ t \<and> (\<forall>c\<in>set w. isSpace c) \<and> (\<forall>c\<in>set t. isWord c)"
      by blast
  next
    assume "\<exists>w t. cs = colon # w @ t \<and> (\<forall>c\<in>set w. isSpace c) \<and> (\<forall>c\<in>set t. isWord c)"
    then obtain w t where "cs = colon # w @ t" "\<forall>c\<in>set w. isSpace c" "\<forall>c\<in>set t. isWord c"
      by blast
    then have "(\<exists>cs'. cs = colon # cs')
        \<and> (drop 1 cs = w @ t \<and> (\<forall>c\<in>set w. isSpace c) \<and> (\<forall>c\<in>set t. isWord c))"
      by simp
    with * show "run typeRe (n, cs, g) \<noteq> []"
      by blast
  qed
qed

lemma test_typeRe: "test typeRe s = TypePosition s"
proof -
  have "test typeRe s
          \<longleftrightarrow> (\<exists>w t. (\<exists>n\<le>length s. drop n s = colon # w @ t)
                 \<and> (\<forall>c\<in>set w. isSpace c) \<and> (\<forall>c\<in>set t. isWord c))"
    by (auto simp: test_iff run_typeRe)
  also have "\<dots> \<longleftrightarrow> (\<exists>w t a. s = a @ colon # w @ t
                 \<and> (\<forall>c\<in>set w. isSpace c) \<and> (\<forall>c\<in>set t. isWord c))"
    unfolding drop_eq_Cons_iff by blast
  finally show ?thesis
    unfolding TypePosition_def by auto
qed

lemma AfterColon_TypePosition: "AfterColon prefix \<Longrightarrow> TypePosition prefix"
proof -
  assume "AfterColon prefix"
  then obtain a w where "prefix = a @ [colon] @ w @ []" "\<forall>c\<in>set w. isSpace c"
    unfolding AfterColon_def by auto
  then have "prefix = a @ [colon] @ w @ [] \<and> (\<forall>c\<in>set w. isSpace c) \<and> (\<forall>c\<in>set []. isWord c)"
    by simp
  then show ?thesis
    unfolding TypePosition_def by blast
qed

lemma AfterColon_not_LineStart: "AfterColon prefix \<Longrightarrow> \<not> LineStart prefix"
  using colon_not_space by (auto simp: AfterColon_def LineStart_def)

lemma completions_blocks:
  "completions prefix =
      (if LineStart prefix then map declarationItem KEYWORDS_declarations else [])
    @ (if AfterColon prefix
       then map propertyItem KEYWORDS_properties @ map actionItem KEYWORDS_actions else [])
    @ (if TypePosition prefix then map typeItem KEYWORDS_types else [])
    @ map modifierItem KEYWORDS_modifiers"
  by (simp add: completions_def Let_def test_lineStartRe test_afterColonRe test_typeRe)

text \<open>The fields of the items the handler pushes.\<close>

lemma label_declarationItem: "map (label \<circ> declarationItem) ks = ks"
  by (simp add: comp_def declarationItem_def)

lemma declarationItem_insertText:
  \<open>insertText (declarationItem keyword)
     = Some (keyword @ utf16 '' "${1:''
               @ (if keyword = utf16 ''app'' then utf16 ''ProjectName'' else utf16 ''Name'')
               @ utf16 ''}":'')\<close>
  by (simp add: declarationItem_def utf16_def)

lemma label_items:
  "map (label \<circ> propertyItem) ks = ks" "map (label \<circ> actionItem) ks = ks"
  "map (label \<circ> typeItem) ks = ks" "map (label \<circ> modifierItem) ks = ks"
  by (simp_all add: comp_def propertyItem_def actionItem_def typeItem_def modifierItem_def)

lemma label_completions:
  "map label (completions prefix) =
      (if LineStart prefix then KEYWORDS_declarations else [])
    @ (if AfterColon prefix then KEYWORDS_properties @ KEYWORDS_actions else [])
    @ (if TypePosition prefix then KEYWORDS_types else [])
    @ KEYWORDS_modifiers"
  by (simp add: completions_blocks label_declarationItem label_items)

lemma declarationItem_fields:
  \<open>label (declarationItem keyword) = keyword
   \<and> kind (declarationItem keyword) = Some Keyword
   \<and> detail (declarationItem keyword) = Some (keyword @ utf16 '' declaration'')
   \<and> documentation (declarationItem keyword) = None
   \<and> insertTextFormat (declarationItem keyword) = Some 2
   \<and> insertText (declarationItem keyword)
       = Some (keyword @ utf16 '' "${1:''
                 @ (if keyword = utf16 ''app'' then utf16 ''ProjectName'' else utf16 ''Name'')
                 @ utf16 ''}":'')
   \<and> insertedText (declarationItem keyword)
       = keyword @ utf16 '' "${1:''
           @ (if keyword = utf16 ''app'' then utf16 ''ProjectName'' else utf16 ''Name'')
           @ utf16 ''}":''\<close>
  by (simp add: declarationItem_def insertedText_def utf16_def)

section \<open>The scanner's pattern\<close>

text \<open>
  The states that each construct of the scanner's pattern can reach, then the pattern as
  a whole: it matches exactly the lines of the declaration-header shape, and its groups
  are the keyword and the name of such a reading of the line. From this, the callback on
  a line never throws, and a warning's range covers a place where the text of the name
  stands, at or before the name itself.
\<close>

lemma Lit_mem:
  "(j, cs', g') \<in> set (run (Lit w) (i, cs, g)) \<longleftrightarrow> g' = g \<and> cs = w @ cs' \<and> j = i + length w"
proof -
  have "startsWith cs w \<and> cs' = drop (length w) cs \<longleftrightarrow> cs = w @ cs'"
    unfolding startsWith_def by (metis append_eq_conv_conj)
  then show ?thesis
    by auto
qed

lemma Plus_mem:
  "(j, cs', g') \<in> set (run (Plus p) (i, cs, g))
     \<longleftrightarrow> g' = g \<and> (\<exists>pre. pre \<noteq> [] \<and> cs = pre @ cs' \<and> (\<forall>c\<in>set pre. p c) \<and> j = i + length pre)"
proof (cases cs)
  case Nil
  then show ?thesis by simp
next
  case (Cons c cs0)
  show ?thesis
  proof (cases "p c")
    case False
    have "\<not> (\<exists>pre. pre \<noteq> [] \<and> c # cs0 = pre @ cs' \<and> (\<forall>x\<in>set pre. p x) \<and> j = i + length pre)"
    proof
      assume "\<exists>pre. pre \<noteq> [] \<and> c # cs0 = pre @ cs' \<and> (\<forall>x\<in>set pre. p x) \<and> j = i + length pre"
      then obtain pre where "pre \<noteq> []" "c # cs0 = pre @ cs'" "\<forall>x\<in>set pre. p x"
        by blast
      then have "p c"
        by (cases pre) simp_all
      with False show False ..
    qed
    with Cons False show ?thesis by simp
  next
    case True
    have "(\<exists>pre. pre \<noteq> [] \<and> c # cs0 = pre @ cs' \<and> (\<forall>x\<in>set pre. p x) \<and> j = i + length pre)
          \<longleftrightarrow> (\<exists>pre'. cs0 = pre' @ cs' \<and> (\<forall>x\<in>set pre'. p x) \<and> j = Suc i + length pre')"
      (is "?L \<longleftrightarrow> ?R")
    proof
      assume ?L
      then obtain pre where pre: "pre \<noteq> []" "c # cs0 = pre @ cs'" "\<forall>x\<in>set pre. p x"
        "j = i + length pre"
        by blast
      then obtain pre' where "pre = c # pre'"
        by (cases pre) simp_all
      with pre have "cs0 = pre' @ cs' \<and> (\<forall>x\<in>set pre'. p x) \<and> j = Suc i + length pre'"
        by simp
      then show ?R ..
    next
      assume ?R
      then obtain pre' where "cs0 = pre' @ cs'" "\<forall>x\<in>set pre'. p x" "j = Suc i + length pre'"
        by blast
      with True have "c # pre' \<noteq> [] \<and> c # cs0 = (c # pre') @ cs' \<and> (\<forall>x\<in>set (c # pre'). p x)
                        \<and> j = i + length (c # pre')"
        by simp
      then show ?L by blast
    qed
    with Cons True show ?thesis
      by (simp add: star_mem)
  qed
qed

lemma Grp_mem:
  "(j, cs', g') \<in> set (run (Grp n r) (i, cs, g))
     \<longleftrightarrow> (\<exists>g0. (j, cs', g0) \<in> set (run r (i, cs, g)) \<and> g' = g0(n \<mapsto> take (j - i) cs))"
  by (auto simp: image_iff) force

lemma Seq_mem:
  "st'' \<in> set (run (Seq a b) st) \<longleftrightarrow> (\<exists>st'\<in>set (run a st). st'' \<in> set (run b st'))"
  by auto

lemma alts_mem:
  "st' \<in> set (run (alts rs) st) \<longleftrightarrow> (\<exists>r\<in>set rs. st' \<in> set (run r st))"
proof (induction rs rule: alts.induct)
  case 1
  show ?case by (cases st) (simp split: list.splits)
next
  case (2 r)
  show ?case by simp
next
  case (3 r r' rs)
  then show ?case by auto
qed


lemma declarationRe_keywords:
  "declarationRe =
     Seq Bol (Seq (Star isSpace) (Seq (Grp 1 (alts (map Lit KEYWORDS_declarations)))
       (Seq (Plus isSpace) (Seq (Grp 2 (Plus notColon))
         (Seq (Lit [colon]) (Seq (Star isSpace) Eol))))))"
  unfolding declarationRe_def KEYWORDS_declarations_def utf16_colon by simp

lemma keywords_mem:
  "(j, cs', g') \<in> set (run (alts (map Lit ks)) (i, cs, g))
     \<longleftrightarrow> g' = g \<and> (\<exists>keyword\<in>set ks. cs = keyword @ cs' \<and> j = i + length keyword)"
proof -
  have "(j, cs', g') \<in> set (run (alts (map Lit ks)) (i, cs, g))
          \<longleftrightarrow> (\<exists>keyword\<in>set ks. (j, cs', g') \<in> set (run (Lit keyword) (i, cs, g)))"
    unfolding alts_mem by (simp del: run.simps)
  then show ?thesis
    unfolding Lit_mem by blast
qed

lemma Bol_mem: "(j, cs', g') \<in> set (run Bol (i, cs, g)) \<longleftrightarrow> i = 0 \<and> j = 0 \<and> cs' = cs \<and> g' = g"
  by auto

lemma Eol_mem: "(j, cs', g') \<in> set (run Eol (i, cs, g)) \<longleftrightarrow> cs = [] \<and> j = i \<and> cs' = [] \<and> g' = g"
  by auto

lemma declarationRe_sound:
  assumes "(j, rest, g) \<in> set (run declarationRe (k, ln, Map.empty))"
  shows "\<exists>keyword name. headerShape ln keyword name \<and> g 1 = Some keyword \<and> g 2 = Some name"
proof -
  from assms obtain st1 st2 st3 st4 st5 st6 st7 where
    1: "st1 \<in> set (run Bol (k, ln, Map.empty))" and
    2: "st2 \<in> set (run (Star isSpace) st1)" and
    3: "st3 \<in> set (run (Grp 1 (alts (map Lit KEYWORDS_declarations))) st2)" and
    4: "st4 \<in> set (run (Plus isSpace) st3)" and
    5: "st5 \<in> set (run (Grp 2 (Plus notColon)) st4)" and
    6: "st6 \<in> set (run (Lit [colon]) st5)" and
    7: "st7 \<in> set (run (Star isSpace) st6)" and
    8: "(j, rest, g) \<in> set (run Eol st7)"
    unfolding declarationRe_keywords Seq_mem by blast
  obtain i1 cs1 g1 where "st1 = (i1, cs1, g1)" by (cases st1)
  with 1 have st1: "st1 = (0, ln, Map.empty)"
    unfolding Bol_mem by simp
  obtain i2 cs2 g2 where st2: "st2 = (i2, cs2, g2)" by (cases st2)
  obtain i3 cs3 g3 where st3: "st3 = (i3, cs3, g3)" by (cases st3)
  obtain i4 cs4 g4 where st4: "st4 = (i4, cs4, g4)" by (cases st4)
  obtain i5 cs5 g5 where st5: "st5 = (i5, cs5, g5)" by (cases st5)
  obtain i6 cs6 g6 where st6: "st6 = (i6, cs6, g6)" by (cases st6)
  obtain i7 cs7 g7 where st7: "st7 = (i7, cs7, g7)" by (cases st7)
  from 2 obtain ws where ws: "ln = ws @ cs2" "\<forall>c\<in>set ws. isSpace c" and g2: "g2 = Map.empty"
    unfolding st1 st2 by (auto simp: star_mem)
  from 3 obtain keyword where kw: "keyword \<in> set KEYWORDS_declarations" "cs2 = keyword @ cs3"
    and g3: "g3 = g2(1 \<mapsto> keyword)"
    unfolding st2 st3 Grp_mem keywords_mem by auto
  from 4 obtain ws' where ws': "ws' \<noteq> []" "cs3 = ws' @ cs4" "\<forall>c\<in>set ws'. isSpace c"
    and g4: "g4 = g3"
    unfolding st3 st4 Plus_mem by auto
  from 5 obtain name where name: "name \<noteq> []" "cs4 = name @ cs5" "\<forall>c\<in>set name. notColon c"
    and g5: "g5 = g4(2 \<mapsto> name)"
    unfolding st4 st5 Grp_mem Plus_mem by auto
  from 6 have cs5: "cs5 = [colon] @ cs6" and g6: "g6 = g5"
    unfolding st5 st6 Lit_mem by auto
  from 7 obtain ws'' where ws'': "cs6 = ws'' @ cs7" "\<forall>c\<in>set ws''. isSpace c" and g7: "g7 = g6"
    unfolding st6 st7 by (auto simp: star_mem)
  from 8 have cs7: "cs7 = []" and g: "g = g7"
    unfolding st7 by (auto split: if_splits)
  have "ln = ws @ keyword @ ws' @ name @ [colon] @ ws''"
    using ws(1) kw(2) ws'(2) name(2) cs5 ws''(1) cs7 by simp
  moreover have "colon \<notin> set name"
    using name(3) by (auto simp: notColon_def)
  ultimately have "headerShape ln keyword name"
    unfolding headerShape_def using ws(2) kw(1) ws'(1,3) name(1) ws''(2) by blast
  moreover have "g 1 = Some keyword" "g 2 = Some name"
    using g g7 g6 g5 g4 g3 g2 by simp_all
  ultimately show ?thesis
    by blast
qed


lemma declarationRe_complete:
  assumes "headerShape ln keyword name"
  shows "run declarationRe (0, ln, Map.empty) \<noteq> []"
proof -
  from assms obtain ws ws' ws'' where
    ln: "ln = ws @ keyword @ ws' @ name @ [colon] @ ws''" and
    ws: "\<forall>c\<in>set ws. isSpace c" and
    kw: "keyword \<in> set KEYWORDS_declarations" and
    ws': "ws' \<noteq> []" "\<forall>c\<in>set ws'. isSpace c" and
    name: "name \<noteq> []" "colon \<notin> set name" and
    ws'': "\<forall>c\<in>set ws''. isSpace c"
    unfolding headerShape_def by blast
  let ?g1 = "[1 \<mapsto> keyword]"
  let ?g2 = "[1 \<mapsto> keyword, 2 \<mapsto> name]"
  let ?i2 = "length ws"
  let ?i3 = "?i2 + length keyword"
  let ?i4 = "?i3 + length ws'"
  let ?i5 = "?i4 + length name"
  let ?i6 = "?i5 + length [colon]"
  let ?i7 = "?i6 + length ws''"
  have 1: "(0, ln, Map.empty) \<in> set (run Bol (0, ln, Map.empty))"
    by simp
  have 2: "(?i2, keyword @ ws' @ name @ [colon] @ ws'', Map.empty)
             \<in> set (run (Star isSpace) (0, ln, Map.empty))"
    using ws by (simp add: star_mem ln)
  have 3: "(?i3, ws' @ name @ [colon] @ ws'', ?g1)
             \<in> set (run (Grp 1 (alts (map Lit KEYWORDS_declarations)))
                  (?i2, keyword @ ws' @ name @ [colon] @ ws'', Map.empty))"
    unfolding Grp_mem keywords_mem using kw by auto
  have 4: "(?i4, name @ [colon] @ ws'', ?g1)
             \<in> set (run (Plus isSpace) (?i3, ws' @ name @ [colon] @ ws'', ?g1))"
    unfolding Plus_mem using ws' by blast
  have "\<forall>c\<in>set name. notColon c"
    using name(2) by (auto simp: notColon_def)
  then have 5: "(?i5, [colon] @ ws'', ?g2)
             \<in> set (run (Grp 2 (Plus notColon)) (?i4, name @ [colon] @ ws'', ?g1))"
    unfolding Grp_mem Plus_mem using name(1) by auto
  have 6: "(?i6, ws'', ?g2) \<in> set (run (Lit [colon]) (?i5, [colon] @ ws'', ?g2))"
    unfolding Lit_mem by simp
  have 7: "(?i7, [], ?g2) \<in> set (run (Star isSpace) (?i6, ws'', ?g2))"
    using ws'' by (simp add: star_mem)
  have 8: "(?i7, [], ?g2) \<in> set (run Eol (?i7, [], ?g2))"
    by simp
  have "(?i7, [], ?g2) \<in> set (run declarationRe (0, ln, Map.empty))"
    unfolding declarationRe_keywords Seq_mem using 1 2 3 4 5 6 7 8 by blast
  then show ?thesis
    by auto
qed

lemma search_Some:
  assumes "search r k cs = Some (k', j, g)"
  shows "\<exists>n rest. (j, rest, g) \<in> set (run r (k + n, drop n cs, Map.empty))"
  using assms
proof (induction cs arbitrary: k)
  case Nil
  then obtain sts where "run r (k, [], Map.empty) = (j, [], g) # sts \<or>
      (\<exists>rest. run r (k, [], Map.empty) = (j, rest, g) # sts)"
    by (auto split: list.splits)
  then have "\<exists>rest. (j, rest, g) \<in> set (run r (k + 0, drop 0 [], Map.empty))"
    by auto
  then show ?case by blast
next
  case (Cons c cs)
  show ?case
  proof (cases "run r (k, c # cs, Map.empty)")
    case Nil
    with Cons.prems have "search r (Suc k) cs = Some (k', j, g)"
      by simp
    from Cons.IH [OF this] obtain n rest
      where "(j, rest, g) \<in> set (run r (Suc k + n, drop n cs, Map.empty))"
      by blast
    then have "(j, rest, g) \<in> set (run r (k + Suc n, drop (Suc n) (c # cs), Map.empty))"
      by simp
    then show ?thesis by blast
  next
    case (Cons st sts)
    with Cons.prems obtain rest where "st = (j, rest, g)"
      by (cases st) auto
    with Cons have "(j, rest, g) \<in> set (run r (k + 0, drop 0 (c # cs), Map.empty))"
      by simp
    then show ?thesis by blast
  qed
qed

lemma match_declarationRe_Some:
  assumes "match ln declarationRe = Some g"
  shows "\<exists>keyword name. headerShape ln keyword name \<and> g 1 = Some keyword \<and> g 2 = Some name"
proof -
  from assms obtain k j where "search declarationRe 0 ln = Some (k, j, g)"
    by (auto simp: match_def exec_def split: option.splits)
  from search_Some [OF this] obtain n rest
    where "(j, rest, g) \<in> set (run declarationRe (0 + n, drop n ln, Map.empty))"
    by blast
  moreover from this have "n = 0"
    unfolding declarationRe_keywords Seq_mem by (auto split: if_splits)
  ultimately have "(j, rest, g) \<in> set (run declarationRe (0, ln, Map.empty))"
    by simp
  then show ?thesis
    by (rule declarationRe_sound)
qed

lemma match_declarationRe_None:
  assumes "match ln declarationRe = None"
  shows "\<not> headerShape ln keyword name"
proof
  assume "headerShape ln keyword name"
  then have "run declarationRe (0, ln, Map.empty) \<noteq> []"
    by (rule declarationRe_complete)
  moreover from assms have "search declarationRe 0 ln = None"
    by (auto simp: match_def exec_def split: option.splits)
  then have "run declarationRe (0 + 0, drop 0 ln, Map.empty) = []"
    unfolding search_None by blast
  ultimately show False
    by simp
qed


lemma indexOfFrom_single: "indexOfFrom k s [c] = - 1 \<longleftrightarrow> c \<notin> set s"
  by (induction s arbitrary: k) (auto simp: startsWith_def)

lemma includes_single: "includes' s [c] \<longleftrightarrow> c \<in> set s"
  by (simp add: includes'_def indexOf_def indexOfFrom_single)

lemma indexOfFrom_occurs:
  "s = a @ w @ b \<Longrightarrow>
     \<exists>n\<le>length a. indexOfFrom k s w = int (k + n) \<and> take (length w) (drop n s) = w"
proof (induction s arbitrary: k a)
  case Nil
  then have "0 \<le> length a \<and> indexOfFrom k [] w = int (k + 0)
               \<and> take (length w) (drop 0 []) = w"
    by simp
  then show ?case by blast
next
  case (Cons c cs)
  show ?case
  proof (cases "startsWith (c # cs) w")
    case True
    then have "0 \<le> length a \<and> indexOfFrom k (c # cs) w = int (k + 0)
                 \<and> take (length w) (drop 0 (c # cs)) = w"
      by (simp add: startsWith_def)
    then show ?thesis by blast
  next
    case False
    have "a \<noteq> []"
    proof
      assume "a = []"
      with Cons.prems have "startsWith (c # cs) w"
        by (simp add: startsWith_def)
      with False show False ..
    qed
    then obtain a' where a: "a = c # a'" "cs = a' @ w @ b"
      using Cons.prems by (cases a) simp_all
    from Cons.IH [OF a(2), of "Suc k"] obtain n where
      n: "n \<le> length a'" "indexOfFrom (Suc k) cs w = int (Suc k + n)"
        "take (length w) (drop n cs) = w"
      by blast
    with False a(1) have "Suc n \<le> length a \<and> indexOfFrom k (c # cs) w = int (k + Suc n)
                 \<and> take (length w) (drop (Suc n) (c # cs)) = w"
      by simp
    then show ?thesis by blast
  qed
qed

lemma indexOf_occurs:
  assumes "s = a @ w @ b"
  shows "0 \<le> indexOf s w" and "indexOf s w \<le> int (length a)"
    and "substring s (indexOf s w) (indexOf s w + int (length w)) = w"
proof -
  from indexOfFrom_occurs [OF assms, of 0] obtain n where
    n: "n \<le> length a" "indexOf s w = int n" "take (length w) (drop n s) = w"
    unfolding indexOf_def by auto
  show "0 \<le> indexOf s w" "indexOf s w \<le> int (length a)"
    using n by simp_all
  have "n + length w \<le> length s"
    using n(1) assms by simp
  then have "substring s (int n) (int n + int (length w)) = take (length w) (drop n s)"
    by (simp add: substring_def Let_def min_def max_def)
  with n show "substring s (indexOf s w) (indexOf s w + int (length w)) = w"
    by simp
qed

lemma utf16_space: "utf16 '' '' = [0x20]"
  by (simp add: utf16_def)

lemma checkLine_no_header:
  assumes "\<And>keyword name. \<not> headerShape ln keyword name"
  shows "checkLine lineNumber ln = Inr []"
proof (cases "match ln declarationRe")
  case None
  then show ?thesis by (simp add: checkLine_def)
next
  case (Some g)
  from match_declarationRe_Some [OF this] assms show ?thesis
    by blast
qed

lemma checkLine_header:
  assumes "headerShape ln keyword' name'"
  shows \<open>\<exists>keyword name. headerShape ln keyword name
           \<and> checkLine lineNumber ln
               = Inr (if 0x20 \<in> set name \<and> \<not> startsWith name (utf16 ''"'')
                      then [\<lparr>severity = Warning,
                             drange =
                               \<lparr>range_start = \<lparr>line = lineNumber, character = indexOf ln name\<rparr>,
                                range_end = \<lparr>line = lineNumber,
                                  character = indexOf ln name + int (length name)\<rparr>\<rparr>,
                             message = utf16 ''Multi-word '' @ keyword
                               @ utf16 '' names should be quoted: "'' @ name @ utf16 ''"'',
                             source = utf16 ''pseudo-lang''\<rparr>]
                      else [])\<close>
proof (cases "match ln declarationRe")
  case None
  from match_declarationRe_None [OF this] assms show ?thesis
    by blast
next
  case (Some g)
  from match_declarationRe_Some [OF this] obtain keyword name where
    shape: "headerShape ln keyword name" and g: "g 1 = Some keyword" "g 2 = Some name"
    by blast
  have \<open>checkLine lineNumber ln
               = Inr (if 0x20 \<in> set name \<and> \<not> startsWith name (utf16 ''"'')
                      then [\<lparr>severity = Warning,
                             drange =
                               \<lparr>range_start = \<lparr>line = lineNumber, character = indexOf ln name\<rparr>,
                                range_end = \<lparr>line = lineNumber,
                                  character = indexOf ln name + int (length name)\<rparr>\<rparr>,
                             message = utf16 ''Multi-word '' @ keyword
                               @ utf16 '' names should be quoted: "'' @ name @ utf16 ''"'',
                             source = utf16 ''pseudo-lang''\<rparr>]
                      else [])\<close>
    using Some g by (simp add: checkLine_def utf16_space includes_single)
  with shape show ?thesis
    by blast
qed

lemma headerShape_range:
  assumes "headerShape ln keyword name"
  shows "0 \<le> indexOf ln name"
    and "substring ln (indexOf ln name) (indexOf ln name + int (length name)) = name"
proof -
  from assms obtain ws ws' ws'' where "ln = ws @ keyword @ ws' @ name @ [colon] @ ws''"
    unfolding headerShape_def by blast
  then have ln: "ln = (ws @ keyword @ ws') @ name @ ([colon] @ ws'')"
    by simp
  show "0 \<le> indexOf ln name"
    by (rule indexOf_occurs(1) [OF ln])
  show "substring ln (indexOf ln name) (indexOf ln name + int (length name)) = name"
    by (rule indexOf_occurs(3) [OF ln])
qed

lemma checkLine_total: "\<exists>ds. checkLine lineNumber ln = Inr ds"
proof (cases "\<exists>keyword name. headerShape ln keyword name")
  case True
  then obtain keyword name where "headerShape ln keyword name"
    by blast
  from checkLine_header [OF this, of lineNumber] show ?thesis
    by blast
next
  case False
  then have "checkLine lineNumber ln = Inr []"
    by (intro checkLine_no_header) blast
  then show ?thesis ..
qed

lemma forEachLine_total: "\<exists>ds. forEachLine lineNumber lns diagnostics = Inr ds"
proof (induction lns arbitrary: lineNumber diagnostics)
  case Nil
  show ?case by simp
next
  case (Cons ln lns)
  from checkLine_total [of lineNumber ln] obtain ds where "checkLine lineNumber ln = Inr ds" ..
  with Cons.IH [of "lineNumber + 1" "diagnostics @ ds"] show ?case
    by simp
qed

lemma validateTextDocument_total:
  "\<exists>diagnostics. validateTextDocument textDocument = Inr (uri textDocument, diagnostics)"
proof -
  from forEachLine_total [of 0 "split newline (getText textDocument)" "[]"]
  obtain ds where "forEachLine 0 (split newline (getText textDocument)) [] = Inr ds" ..
  then show ?thesis
    by (simp add: validateTextDocument_def Let_def)
qed

text \<open>
  Which of the readings the pattern captures. Backtracking tries the longest run of
  whitespace after the keyword first, so the captured name does not begin with
  whitespace, unless nothing but whitespace stands between the keyword and the colon:
  then the name is the last of these characters. Such a reading of a line is unique, so
  the callback's result is a function of the keyword and the name of the line.
\<close>

lemma hd_concat_map:
  "concat (map f xs) \<noteq> [] \<Longrightarrow> \<exists>x\<in>set xs. f x \<noteq> [] \<and> hd (concat (map f xs)) = hd (f x)"
proof (induction xs)
  case Nil
  then show ?case by simp
next
  case (Cons x xs)
  show ?case
  proof (cases "f x = []")
    case True
    with Cons show ?thesis by simp
  next
    case False
    then show ?thesis by simp
  qed
qed

lemma star_first:
  assumes "concat (map F (star p (i, cs, g))) \<noteq> []"
  shows "\<exists>k\<le>length cs. (\<forall>c\<in>set (take k cs). p c)
           \<and> F (i + k, drop k cs, g) \<noteq> []
           \<and> hd (concat (map F (star p (i, cs, g)))) = hd (F (i + k, drop k cs, g))
           \<and> (\<forall>c rest. drop k cs = c # rest \<longrightarrow> p c \<longrightarrow> F (i + Suc k, rest, g) = [])"
  using assms
proof (induction cs arbitrary: i)
  case Nil
  then have "(\<forall>c\<in>set (take 0 []). p c)
           \<and> F (i + 0, drop 0 [], g) \<noteq> []
           \<and> hd (concat (map F (star p (i, [], g)))) = hd (F (i + 0, drop 0 [], g))
           \<and> (\<forall>c rest. drop 0 [] = c # rest \<longrightarrow> p c \<longrightarrow> F (i + Suc 0, rest, g) = [])"
    by simp
  then show ?case by blast
next
  case (Cons c cs)
  show ?case
  proof (cases "p c")
    case False
    with Cons.prems have "(\<forall>x\<in>set (take 0 (c # cs)). p x)
           \<and> F (i + 0, drop 0 (c # cs), g) \<noteq> []
           \<and> hd (concat (map F (star p (i, c # cs, g)))) = hd (F (i + 0, drop 0 (c # cs), g))
           \<and> (\<forall>x rest. drop 0 (c # cs) = x # rest \<longrightarrow> p x \<longrightarrow> F (i + Suc 0, rest, g) = [])"
      by simp
    then show ?thesis by blast
  next
    case True
    show ?thesis
    proof (cases "concat (map F (star p (Suc i, cs, g))) = []")
      case False
      from Cons.IH [OF this] obtain k where
        k: "k \<le> length cs" "\<forall>x\<in>set (take k cs). p x" "F (Suc i + k, drop k cs, g) \<noteq> []"
          "hd (concat (map F (star p (Suc i, cs, g)))) = hd (F (Suc i + k, drop k cs, g))"
          "\<forall>x rest. drop k cs = x # rest \<longrightarrow> p x \<longrightarrow> F (Suc i + Suc k, rest, g) = []"
        by blast
      from True False k have "Suc k \<le> length (c # cs) \<and> (\<forall>x\<in>set (take (Suc k) (c # cs)). p x)
           \<and> F (i + Suc k, drop (Suc k) (c # cs), g) \<noteq> []
           \<and> hd (concat (map F (star p (i, c # cs, g))))
               = hd (F (i + Suc k, drop (Suc k) (c # cs), g))
           \<and> (\<forall>x rest. drop (Suc k) (c # cs) = x # rest \<longrightarrow> p x
                 \<longrightarrow> F (i + Suc (Suc k), rest, g) = [])"
        by simp
      then show ?thesis by blast
    next
      case empty: True
      have "(Suc i, cs, g) \<in> set (star p (Suc i, cs, g))"
        by (simp add: star_mem)
      with empty have next_empty: "F (Suc i, cs, g) = []"
        by auto
      have "star p (i, c # cs, g) = star p (Suc i, cs, g) @ [(i, c # cs, g)]"
        using True by simp
      then have "concat (map F (star p (i, c # cs, g)))
                   = concat (map F (star p (Suc i, cs, g))) @ F (i, c # cs, g)"
        by simp
      then have all: "concat (map F (star p (i, c # cs, g))) = F (i, c # cs, g)"
        unfolding empty by simp
      have ne: "F (i, c # cs, g) \<noteq> []"
        using Cons.prems unfolding all .
      have "0 \<le> length (c # cs)
           \<and> (\<forall>x\<in>set (take 0 (c # cs)). p x)
           \<and> F (i + 0, drop 0 (c # cs), g) \<noteq> []
           \<and> hd (concat (map F (star p (i, c # cs, g)))) = hd (F (i + 0, drop 0 (c # cs), g))
           \<and> (\<forall>x rest. drop 0 (c # cs) = x # rest \<longrightarrow> p x \<longrightarrow> F (i + Suc 0, rest, g) = [])"
        using all ne next_empty by (simp del: star.simps)
      then show ?thesis by blast
    qed
  qed
qed

lemma mem_nonempty: "x \<in> set xs \<Longrightarrow> xs \<noteq> []"
  by auto

lemma nameTail_mem:
  assumes "(j, rest, g') \<in> set (run nameTail (i, cs, g))"
  shows "\<exists>name ws''. cs = name @ colon # ws'' \<and> name \<noteq> [] \<and> colon \<notin> set name
           \<and> (\<forall>c\<in>set ws''. isSpace c) \<and> g' = g(2 \<mapsto> name)"
proof -
  from assms obtain st5 st6 st7 where
    5: "st5 \<in> set (run (Grp 2 (Plus notColon)) (i, cs, g))" and
    6: "st6 \<in> set (run (Lit [colon]) st5)" and
    7: "st7 \<in> set (run (Star isSpace) st6)" and
    8: "(j, rest, g') \<in> set (run Eol st7)"
    unfolding Seq_mem by blast
  obtain i5 cs5 g5 where st5: "st5 = (i5, cs5, g5)" by (cases st5)
  obtain i6 cs6 g6 where st6: "st6 = (i6, cs6, g6)" by (cases st6)
  obtain i7 cs7 g7 where st7: "st7 = (i7, cs7, g7)" by (cases st7)
  from 5 obtain name where name: "name \<noteq> []" "cs = name @ cs5" "\<forall>c\<in>set name. notColon c"
    and g5: "g5 = g(2 \<mapsto> name)"
    unfolding st5 Grp_mem Plus_mem by auto
  from 6 have cs5: "cs5 = [colon] @ cs6" and g6: "g6 = g5"
    unfolding st5 st6 Lit_mem by auto
  from 7 obtain ws'' where ws'': "cs6 = ws'' @ cs7" "\<forall>c\<in>set ws''. isSpace c" and g7: "g7 = g6"
    unfolding st6 st7 by (auto simp: star_mem)
  from 8 have cs7: "cs7 = []" and g: "g' = g7"
    unfolding st7 by (auto split: if_splits)
  have "cs = name @ colon # ws''"
    using name(2) cs5 ws''(1) cs7 by simp
  moreover have "colon \<notin> set name"
    using name(3) by (auto simp: notColon_def)
  ultimately show ?thesis
    using name(1) ws''(2) g g7 g6 g5 by blast
qed

lemma nameTail_nonempty:
  assumes "cs = name @ colon # ws''" and "name \<noteq> []" and "colon \<notin> set name"
    and "\<forall>c\<in>set ws''. isSpace c"
  shows "run nameTail (i, cs, g) \<noteq> []"
proof -
  have "\<forall>c\<in>set name. notColon c"
    using assms(3) by (auto simp: notColon_def)
  then have 5: "(i + length name, [colon] @ ws'', g(2 \<mapsto> name))
             \<in> set (run (Grp 2 (Plus notColon)) (i, cs, g))"
    unfolding Grp_mem Plus_mem using assms(1,2) by auto
  have 6: "(i + length name + length [colon], ws'', g(2 \<mapsto> name))
             \<in> set (run (Lit [colon]) (i + length name, [colon] @ ws'', g(2 \<mapsto> name)))"
    unfolding Lit_mem by simp
  have 7: "(i + length name + length [colon] + length ws'', [], g(2 \<mapsto> name))
             \<in> set (run (Star isSpace) (i + length name + length [colon], ws'', g(2 \<mapsto> name)))"
    using assms(4) by (simp add: star_mem)
  have 8: "(i + length name + length [colon] + length ws'', [], g(2 \<mapsto> name))
             \<in> set (run Eol (i + length name + length [colon] + length ws'', [], g(2 \<mapsto> name)))"
    by simp
  have "(i + length name + length [colon] + length ws'', [], g(2 \<mapsto> name))
          \<in> set (run nameTail (i, cs, g))"
    unfolding Seq_mem using 5 6 7 8 by blast
  then show ?thesis
    by (rule mem_nonempty)
qed


lemma search_first:
  assumes "search r k cs = Some (k', j, g)"
  shows "\<exists>n rest sts. run r (k + n, drop n cs, Map.empty) = (j, rest, g) # sts"
  using assms
proof (induction cs arbitrary: k)
  case Nil
  then obtain rest sts where "run r (k + 0, drop 0 [], Map.empty) = (j, rest, g) # sts"
    by (auto split: list.splits)
  then show ?case by blast
next
  case (Cons c cs)
  show ?case
  proof (cases "run r (k, c # cs, Map.empty)")
    case Nil
    with Cons.prems have "search r (Suc k) cs = Some (k', j, g)"
      by simp
    from Cons.IH [OF this] obtain n rest sts
      where "run r (Suc k + n, drop n cs, Map.empty) = (j, rest, g) # sts"
      by blast
    then have "run r (k + Suc n, drop (Suc n) (c # cs), Map.empty) = (j, rest, g) # sts"
      by simp
    then show ?thesis by blast
  next
    case (Cons st sts)
    with Cons.prems obtain rest where "st = (j, rest, g)"
      by (cases st) auto
    with Cons have "run r (k + 0, drop 0 (c # cs), Map.empty) = (j, rest, g) # sts"
      by simp
    then show ?thesis by blast
  qed
qed

lemma run_Seq: "run (Seq a b) st = concat (map (run b) (run a st))"
  by simp

lemma Seq_first:
  assumes "run (Seq a b) st \<noteq> []"
  shows "\<exists>st'\<in>set (run a st). run b st' \<noteq> [] \<and> hd (run (Seq a b) st) = hd (run b st')"
  using hd_concat_map [of "run b" "run a st"] assms by simp

lemma declarationRe_first:
  assumes "run declarationRe (0, ln, Map.empty) = (j, rest, g) # sts"
  shows "\<exists>name. g 2 = Some name \<and> (\<not> isSpace (hd name) \<or> length name = 1)"
proof -
  let ?R3 = "Seq (Plus isSpace) nameTail"
  let ?R2 = "Seq (Grp 1 (alts (map Lit KEYWORDS_declarations))) ?R3"
  let ?R1 = "Seq (Star isSpace) ?R2"
  have R: "run (Seq Bol ?R1) (0, ln, Map.empty) = (j, rest, g) # sts"
    using assms unfolding declarationRe_keywords .
  then have "run (Seq Bol ?R1) (0, ln, Map.empty) \<noteq> []"
    by (simp del: run.simps)
  from Seq_first [OF this] obtain st1 where
    "run ?R1 st1 \<noteq> []" "hd (run (Seq Bol ?R1) (0, ln, Map.empty)) = hd (run ?R1 st1)"
    by blast
  then have 1: "run ?R1 st1 \<noteq> []" "hd (run ?R1 st1) = (j, rest, g)"
    unfolding R by (simp_all del: run.simps)
  from Seq_first [OF 1(1)] obtain st2 where
    "run ?R2 st2 \<noteq> []" "hd (run ?R1 st1) = hd (run ?R2 st2)"
    by blast
  then have 2: "run ?R2 st2 \<noteq> []" "hd (run ?R2 st2) = (j, rest, g)"
    unfolding 1(2) by (simp_all del: run.simps)
  from Seq_first [OF 2(1)] obtain st3 where
    "run ?R3 st3 \<noteq> []" "hd (run ?R2 st2) = hd (run ?R3 st3)"
    by blast
  then have 3: "run ?R3 st3 \<noteq> []" "hd (run ?R3 st3) = (j, rest, g)"
    unfolding 2(2) by (simp_all del: run.simps)
  obtain i3 cs3 g3 where st3: "st3 = (i3, cs3, g3)" by (cases st3)
  have R3: "run ?R3 st3 = concat (map (run nameTail) (run (Plus isSpace) st3))"
    by (rule run_Seq)
  have "run (Plus isSpace) st3 \<noteq> []"
  proof
    assume "run (Plus isSpace) st3 = []"
    then have "run ?R3 st3 = []"
      unfolding R3 by (simp del: run.simps)
    with 3(1) show False ..
  qed
  then obtain c cs4 where cs3: "cs3 = c # cs4" "isSpace c"
    unfolding st3 by (cases cs3) (auto split: if_splits)
  then have "run (Plus isSpace) st3 = star isSpace (Suc i3, cs4, g3)"
    unfolding st3 by simp
  then have R3': "run ?R3 st3 = concat (map (run nameTail) (star isSpace (Suc i3, cs4, g3)))"
    unfolding R3 by (simp del: run.simps)
  have "concat (map (run nameTail) (star isSpace (Suc i3, cs4, g3))) \<noteq> []"
    using 3(1) unfolding R3' .
  from star_first [OF this] obtain k where
    k: "run nameTail (Suc i3 + k, drop k cs4, g3) \<noteq> []"
      "hd (concat (map (run nameTail) (star isSpace (Suc i3, cs4, g3))))
         = hd (run nameTail (Suc i3 + k, drop k cs4, g3))"
      "\<forall>x xs. drop k cs4 = x # xs \<longrightarrow> isSpace x
         \<longrightarrow> run nameTail (Suc i3 + Suc k, xs, g3) = []"
    by blast
  have "hd (run nameTail (Suc i3 + k, drop k cs4, g3)) = (j, rest, g)"
    using k(2) 3(2) unfolding R3' by (simp del: run.simps)
  with k(1) have "(j, rest, g) \<in> set (run nameTail (Suc i3 + k, drop k cs4, g3))"
    using hd_in_set by metis
  from nameTail_mem [OF this] obtain name ws'' where
    name: "drop k cs4 = name @ colon # ws''" "name \<noteq> []" "colon \<notin> set name"
      "\<forall>c\<in>set ws''. isSpace c" "g = g3(2 \<mapsto> name)"
    by blast
  from name(2) obtain x name' where x: "name = x # name'"
    by (cases name) simp_all
  have "\<not> isSpace (hd name) \<or> length name = 1"
  proof (cases "isSpace x")
    case False
    with x show ?thesis by simp
  next
    case True
    have "drop k cs4 = x # (name' @ colon # ws'')"
      using name(1) x by simp
    with k(3) True have empty: "run nameTail (Suc i3 + Suc k, name' @ colon # ws'', g3) = []"
      by blast
    have "name' = []"
    proof (rule ccontr)
      assume "name' \<noteq> []"
      moreover have "colon \<notin> set name'"
        using name(3) x by simp
      ultimately have "run nameTail (Suc i3 + Suc k, name' @ colon # ws'', g3) \<noteq> []"
        using name(4) by (intro nameTail_nonempty [of _ name' ws'']) simp_all
      with empty show False by blast
    qed
    with x show ?thesis by simp
  qed
  moreover have "g 2 = Some name"
    using name(5) by simp
  ultimately show ?thesis
    by blast
qed

lemma match_declarationRe_first:
  assumes "match ln declarationRe = Some g"
  shows "\<exists>keyword name. headerShape ln keyword name \<and> g 1 = Some keyword \<and> g 2 = Some name
           \<and> (\<not> isSpace (hd name) \<or> length name = 1)"
proof -
  from assms obtain k j where "search declarationRe 0 ln = Some (k, j, g)"
    by (auto simp: match_def exec_def split: option.splits)
  from search_first [OF this] obtain n rest sts
    where first: "run declarationRe (0 + n, drop n ln, Map.empty) = (j, rest, g) # sts"
    by blast
  have "n = 0"
  proof (rule ccontr)
    assume "n \<noteq> 0"
    then have "run declarationRe (0 + n, drop n ln, Map.empty) = []"
      unfolding declarationRe_keywords by simp
    with first show False by simp
  qed
  with first have first0: "run declarationRe (0, ln, Map.empty) = (j, rest, g) # sts"
    by simp
  from declarationRe_first [OF this] obtain name' where
    tight: "g 2 = Some name'" "\<not> isSpace (hd name') \<or> length name' = 1"
    by blast
  from match_declarationRe_Some [OF assms] obtain keyword name where
    "headerShape ln keyword name" "g 1 = Some keyword" "g 2 = Some name"
    by blast
  with tight show ?thesis
    by auto
qed


lemma takeWhile_until:
  "(\<forall>c\<in>set xs. P c) \<Longrightarrow> \<not> P y \<Longrightarrow> takeWhile P (xs @ y # ys) = xs"
  by (induction xs) simp_all

lemma keywords_no_space:
  "\<forall>keyword\<in>set KEYWORDS_declarations. keyword \<noteq> [] \<and> (\<forall>c\<in>set keyword. \<not> isSpace c)"
  by code_simp

lemma headerShape_determined:
  assumes "headerShape ln keyword name" and "\<not> isSpace (hd name) \<or> length name = 1"
  shows "keyword = takeWhile (\<lambda>c. \<not> isSpace c) (dropWhile isSpace ln)"
    and "name =
      (let body = takeWhile notColon (dropWhile (\<lambda>c. \<not> isSpace c) (dropWhile isSpace ln))
       in if \<forall>c\<in>set body. isSpace c then [last body] else dropWhile isSpace body)"
proof -
  from assms(1) obtain ws ws' ws'' where
    ln: "ln = ws @ keyword @ ws' @ name @ [colon] @ ws''" and
    ws: "\<forall>c\<in>set ws. isSpace c" and
    kw: "keyword \<in> set KEYWORDS_declarations" and
    ws': "ws' \<noteq> []" "\<forall>c\<in>set ws'. isSpace c" and
    name: "name \<noteq> []" "colon \<notin> set name"
    unfolding headerShape_def by blast
  from kw keywords_no_space have kw_ne: "keyword \<noteq> []" and kw_ns: "\<forall>c\<in>set keyword. \<not> isSpace c"
    by blast+
  from kw_ne obtain k0 kw' where k0: "keyword = k0 # kw'"
    by (cases keyword) simp_all
  with kw_ns have "\<not> isSpace k0"
    by simp
  then have "dropWhile isSpace (keyword @ ws' @ name @ [colon] @ ws'')
               = keyword @ ws' @ name @ [colon] @ ws''"
    unfolding k0 by simp
  with ws have r1: "dropWhile isSpace ln = keyword @ ws' @ name @ [colon] @ ws''"
    unfolding ln by (simp add: dropWhile_append2)
  from ws'(1) obtain w0 ws0 where w0: "ws' = w0 # ws0"
    by (cases ws') simp_all
  with ws'(2) have sp0: "isSpace w0"
    by simp
  have "takeWhile (\<lambda>c. \<not> isSpace c) (keyword @ (ws' @ name @ [colon] @ ws'')) = keyword"
    using kw_ns sp0 unfolding w0 by (simp add: takeWhile_append2)
  then show "keyword = takeWhile (\<lambda>c. \<not> isSpace c) (dropWhile isSpace ln)"
    unfolding r1 by simp
  have r2: "dropWhile (\<lambda>c. \<not> isSpace c) (dropWhile isSpace ln) = ws' @ name @ [colon] @ ws''"
    unfolding r1 using kw_ns sp0 unfolding w0 by (simp add: dropWhile_append2)
  have "\<forall>c\<in>set (ws' @ name). notColon c"
    using ws'(2) name(2) colon_not_space by (auto simp: notColon_def)
  then have "takeWhile notColon ((ws' @ name) @ colon # ws'') = ws' @ name"
    by (intro takeWhile_until) (simp_all add: notColon_def)
  then have body: "takeWhile notColon (dropWhile (\<lambda>c. \<not> isSpace c) (dropWhile isSpace ln))
                     = ws' @ name"
    unfolding r2 by simp
  from name(1) obtain n0 name' where n0: "name = n0 # name'"
    by (cases name) simp_all
  have "name = (if \<forall>c\<in>set (ws' @ name). isSpace c then [last (ws' @ name)]
                else dropWhile isSpace (ws' @ name))"
  proof (cases "isSpace n0")
    case False
    then have A: "dropWhile isSpace (ws' @ name) = name"
      using ws'(2) unfolding n0 by (simp add: dropWhile_append2)
    have B: "\<not> (\<forall>c\<in>set (ws' @ name). isSpace c)"
      using False unfolding n0 by simp
    show ?thesis
      unfolding if_not_P [OF B] A by (rule refl)
  next
    case True
    with assms(2) n0 have "name = [n0]"
      by simp
    with True ws'(2) show ?thesis
      by simp
  qed
  then show "name =
      (let body = takeWhile notColon (dropWhile (\<lambda>c. \<not> isSpace c) (dropWhile isSpace ln))
       in if \<forall>c\<in>set body. isSpace c then [last body] else dropWhile isSpace body)"
    unfolding body Let_def .
qed

lemma checkLine_header_exact:
  assumes "headerShape ln keyword name" and "\<not> isSpace (hd name) \<or> length name = 1"
  shows \<open>checkLine lineNumber ln
           = Inr (if 0x20 \<in> set name \<and> \<not> startsWith name (utf16 ''"'')
                  then [\<lparr>severity = Warning,
                         drange =
                           \<lparr>range_start = \<lparr>line = lineNumber, character = indexOf ln name\<rparr>,
                            range_end = \<lparr>line = lineNumber,
                              character = indexOf ln name + int (length name)\<rparr>\<rparr>,
                         message = utf16 ''Multi-word '' @ keyword
                           @ utf16 '' names should be quoted: "'' @ name @ utf16 ''"'',
                         source = utf16 ''pseudo-lang''\<rparr>]
                  else [])\<close>
proof (cases "match ln declarationRe")
  case None
  from match_declarationRe_None [OF this] assms(1) show ?thesis
    by blast
next
  case (Some g)
  from match_declarationRe_first [OF this] obtain keyword' name' where
    shape: "headerShape ln keyword' name'" "\<not> isSpace (hd name') \<or> length name' = 1"
    and g: "g 1 = Some keyword'" "g 2 = Some name'"
    by blast
  have "keyword' = keyword" "name' = name"
    using headerShape_determined [OF shape] headerShape_determined [OF assms] by simp_all
  with g have "g 1 = Some keyword" "g 2 = Some name"
    by simp_all
  with Some show ?thesis
    by (simp add: checkLine_def utf16_space includes_single)
qed

section \<open>Properties of the completion handler\<close>

text \<open>
  For a tracked document and a line index within its lines the handler returns the
  completions of the prefix.
\<close>

lemma onCompletion_in_range:
  assumes "documents (textDocument_uri params) = Some document"
    and "0 \<le> line (position params)"
    and "line (position params) < int (length (split newline (getText document)))"
  shows "onCompletion documents params
           = Inr (completions
               (substring (split newline (getText document) ! nat (line (position params)))
                  0 (character (position params))))"
  using assms by (simp add: onCompletion_def at_index_def Let_def)

subsection \<open>Documents and positions\<close>

text \<open>
  C8. A completion request for a uri that the document store does not track returns the
  empty list of candidates; nothing is thrown.
\<close>

theorem onCompletion_unknown_uri:
  assumes "documents (textDocument_uri params) = None"
  shows "onCompletion documents params = Inr []"
  using assms by (simp add: onCompletion_def)

theorem onCompletion_unknown_uri_witness:
  "[utf16 ''a.pseudo'' \<mapsto> \<lparr>uri = utf16 ''a.pseudo'', getText = utf16 ''app''\<rparr>]
     (textDocument_uri
       \<lparr>textDocument_uri = utf16 ''b.pseudo'', position = \<lparr>line = 0, character = 0\<rparr>\<rparr>) = None
   \<and> onCompletion
       [utf16 ''a.pseudo'' \<mapsto> \<lparr>uri = utf16 ''a.pseudo'', getText = utf16 ''app''\<rparr>]
       \<lparr>textDocument_uri = utf16 ''b.pseudo'', position = \<lparr>line = 0, character = 0\<rparr>\<rparr>
     = Inr []"
proof -
  have h: "[utf16 ''a.pseudo'' \<mapsto> \<lparr>uri = utf16 ''a.pseudo'', getText = utf16 ''app''\<rparr>]
     (textDocument_uri
       \<lparr>textDocument_uri = utf16 ''b.pseudo'', position = \<lparr>line = 0, character = 0\<rparr>\<rparr>) = None"
    by (simp add: utf16_def)
  show ?thesis
    using h onCompletion_unknown_uri
      [of "[utf16 ''a.pseudo'' \<mapsto> \<lparr>uri = utf16 ''a.pseudo'', getText = utf16 ''app''\<rparr>]"
          "\<lparr>textDocument_uri = utf16 ''b.pseudo'', position = \<lparr>line = 0, character = 0\<rparr>\<rparr>"]
    by simp
qed

text \<open>
  C1. For a tracked document and a line index at or beyond the number of lines, the
  handler does not return: \<^verbatim>\<open>lineText\<close> is \<^verbatim>\<open>undefined\<close> and the call of
  \<^verbatim>\<open>substring\<close> on it throws a \<^verbatim>\<open>TypeError\<close>.
\<close>

theorem onCompletion_line_out_of_range:
  assumes "documents (textDocument_uri params) = Some document"
    and "int (length (split newline (getText document))) \<le> line (position params)"
  shows "onCompletion documents params = Inl TypeError"
  using assms by (simp add: onCompletion_def at_index_def)

theorem onCompletion_line_out_of_range_witness:
  "[utf16 ''a.pseudo'' \<mapsto> \<lparr>uri = utf16 ''a.pseudo'', getText = utf16 ''app''\<rparr>]
     (textDocument_uri
       \<lparr>textDocument_uri = utf16 ''a.pseudo'', position = \<lparr>line = 1, character = 0\<rparr>\<rparr>)
     = Some \<lparr>uri = utf16 ''a.pseudo'', getText = utf16 ''app''\<rparr>
   \<and> int (length (split newline (getText \<lparr>uri = utf16 ''a.pseudo'', getText = utf16 ''app''\<rparr>)))
       \<le> line (position
           \<lparr>textDocument_uri = utf16 ''a.pseudo'', position = \<lparr>line = 1, character = 0\<rparr>\<rparr>)
   \<and> onCompletion
       [utf16 ''a.pseudo'' \<mapsto> \<lparr>uri = utf16 ''a.pseudo'', getText = utf16 ''app''\<rparr>]
       \<lparr>textDocument_uri = utf16 ''a.pseudo'', position = \<lparr>line = 1, character = 0\<rparr>\<rparr>
     = Inl TypeError"
proof -
  have h1: "[utf16 ''a.pseudo'' \<mapsto> \<lparr>uri = utf16 ''a.pseudo'', getText = utf16 ''app''\<rparr>]
     (textDocument_uri
       \<lparr>textDocument_uri = utf16 ''a.pseudo'', position = \<lparr>line = 1, character = 0\<rparr>\<rparr>)
     = Some \<lparr>uri = utf16 ''a.pseudo'', getText = utf16 ''app''\<rparr>"
    by simp
  have h2: "int (length (split newline (getText \<lparr>uri = utf16 ''a.pseudo'', getText = utf16 ''app''\<rparr>)))
       \<le> line (position
           \<lparr>textDocument_uri = utf16 ''a.pseudo'', position = \<lparr>line = 1, character = 0\<rparr>\<rparr>)"
    by code_simp
  show ?thesis
    using h1 h2 onCompletion_line_out_of_range
      [of "[utf16 ''a.pseudo'' \<mapsto> \<lparr>uri = utf16 ''a.pseudo'', getText = utf16 ''app''\<rparr>]"
          "\<lparr>textDocument_uri = utf16 ''a.pseudo'', position = \<lparr>line = 1, character = 0\<rparr>\<rparr>"
          "\<lparr>uri = utf16 ''a.pseudo'', getText = utf16 ''app''\<rparr>"]
    by simp
qed

text \<open>
  C10. For a tracked document, a line index within the lines and a character offset
  beyond the end of that line, the handler returns, and what it returns are the
  completions for the whole line: \<^verbatim>\<open>substring\<close> clamps the offset to the line's length.
\<close>

theorem onCompletion_character_clamped:
  assumes "documents (textDocument_uri params) = Some document"
    and "0 \<le> line (position params)"
    and "line (position params) < int (length (split newline (getText document)))"
    and "int (length (split newline (getText document) ! nat (line (position params))))
           < character (position params)"
  shows "onCompletion documents params
           = Inr (completions (split newline (getText document) ! nat (line (position params))))"
  using assms by (simp add: onCompletion_def at_index_def substring_def)

theorem onCompletion_character_clamped_witness:
  "[utf16 ''a.pseudo'' \<mapsto> \<lparr>uri = utf16 ''a.pseudo'', getText = utf16 ''app''\<rparr>]
     (textDocument_uri
       \<lparr>textDocument_uri = utf16 ''a.pseudo'', position = \<lparr>line = 0, character = 7\<rparr>\<rparr>)
     = Some \<lparr>uri = utf16 ''a.pseudo'', getText = utf16 ''app''\<rparr>
   \<and> int (length (split newline (utf16 ''app'') ! 0)) < 7
   \<and> onCompletion
       [utf16 ''a.pseudo'' \<mapsto> \<lparr>uri = utf16 ''a.pseudo'', getText = utf16 ''app''\<rparr>]
       \<lparr>textDocument_uri = utf16 ''a.pseudo'', position = \<lparr>line = 0, character = 7\<rparr>\<rparr>
     = Inr (completions (utf16 ''app''))"
proof -
  let ?doc = "\<lparr>uri = utf16 ''a.pseudo'', getText = utf16 ''app''\<rparr>"
  let ?params =
    "\<lparr>textDocument_uri = utf16 ''a.pseudo'', position = \<lparr>line = 0, character = 7\<rparr>\<rparr>"
  have lines: "split newline (utf16 ''app'') = [utf16 ''app'']"
    by code_simp
  have h1: "[utf16 ''a.pseudo'' \<mapsto> ?doc] (textDocument_uri ?params) = Some ?doc"
    by simp
  have h2: "0 \<le> line (position ?params)"
    by simp
  have h3: "line (position ?params) < int (length (split newline (getText ?doc)))"
    by (simp add: lines)
  have h4: "int (length (split newline (getText ?doc) ! nat (line (position ?params))))
              < character (position ?params)"
    by (simp add: lines utf16_def)
  show ?thesis
    using h1 h4 onCompletion_character_clamped
      [of "[utf16 ''a.pseudo'' \<mapsto> ?doc]" ?params ?doc, OF h1 h2 h3 h4]
    by (simp add: lines)
qed

text \<open>
  C7. For a tracked document and a line index within its lines, whatever the prefix,
  the handler returns a list that holds, for every keyword of the \<^verbatim>\<open>modifiers\<close>
  category, the candidate of that keyword.
\<close>

theorem onCompletion_modifiers_always:
  assumes "documents (textDocument_uri params) = Some document"
    and "0 \<le> line (position params)"
    and "line (position params) < int (length (split newline (getText document)))"
  shows "\<exists>items. onCompletion documents params = Inr items
           \<and> (\<forall>modifier\<in>set KEYWORDS_modifiers.
                 \<exists>item\<in>set items. label item = modifier \<and> kind item = Some Keyword
                   \<and> detail item = Some (modifier @ utf16 '' modifier''))"
proof -
  let ?prefix = "substring (split newline (getText document) ! nat (line (position params))) 0
                   (character (position params))"
  have ret: "onCompletion documents params = Inr (completions ?prefix)"
    using assms by (simp add: onCompletion_def at_index_def Let_def)
  have "modifierItem modifier \<in> set (completions ?prefix)"
    if "modifier \<in> set KEYWORDS_modifiers" for modifier
    using that by (simp add: completions_def Let_def)
  then have "\<exists>item\<in>set (completions ?prefix). label item = modifier \<and> kind item = Some Keyword
               \<and> detail item = Some (modifier @ utf16 '' modifier'')"
    if "modifier \<in> set KEYWORDS_modifiers" for modifier
    using that by (intro bexI [of _ "modifierItem modifier"]) (simp_all add: modifierItem_def)
  with ret show ?thesis
    by blast
qed

theorem onCompletion_modifiers_always_witness:
  "[utf16 ''a.pseudo'' \<mapsto> \<lparr>uri = utf16 ''a.pseudo'', getText = utf16 ''app x = y''\<rparr>]
     (textDocument_uri
       \<lparr>textDocument_uri = utf16 ''a.pseudo'', position = \<lparr>line = 0, character = 5\<rparr>\<rparr>)
     = Some \<lparr>uri = utf16 ''a.pseudo'', getText = utf16 ''app x = y''\<rparr>
   \<and> (0::int) < int (length (split newline (utf16 ''app x = y'')))
   \<and> (\<exists>items.
        onCompletion
          [utf16 ''a.pseudo'' \<mapsto> \<lparr>uri = utf16 ''a.pseudo'', getText = utf16 ''app x = y''\<rparr>]
          \<lparr>textDocument_uri = utf16 ''a.pseudo'', position = \<lparr>line = 0, character = 5\<rparr>\<rparr>
          = Inr items
        \<and> (\<forall>modifier\<in>set KEYWORDS_modifiers.
              \<exists>item\<in>set items. label item = modifier \<and> kind item = Some Keyword
                \<and> detail item = Some (modifier @ utf16 '' modifier'')))"
proof -
  let ?doc = "\<lparr>uri = utf16 ''a.pseudo'', getText = utf16 ''app x = y''\<rparr>"
  let ?params =
    "\<lparr>textDocument_uri = utf16 ''a.pseudo'', position = \<lparr>line = 0, character = 5\<rparr>\<rparr>"
  have lines: "split newline (utf16 ''app x = y'') = [utf16 ''app x = y'']"
    by code_simp
  have h1: "[utf16 ''a.pseudo'' \<mapsto> ?doc] (textDocument_uri ?params) = Some ?doc"
    by simp
  have h2: "0 \<le> line (position ?params)"
    by simp
  have h3: "line (position ?params) < int (length (split newline (getText ?doc)))"
    by (simp add: lines)
  show ?thesis
    using h1 h3 onCompletion_modifiers_always
      [of "[utf16 ''a.pseudo'' \<mapsto> ?doc]" ?params ?doc, OF h1 h2 h3]
    by simp
qed

subsection \<open>Resolving a candidate\<close>

text \<open>
  C9. \<^verbatim>\<open>onCompletionResolve\<close> is a total function of the item alone. It returns the
  item with its label, kind, detail, insertText, insertTextFormat and every further field
  as they were; the documentation is set, to the string of the label followed by
  \<^verbatim>\<open> - A pseudolang keyword\<close>, exactly when the item's kind is \<^verbatim>\<open>Keyword\<close>, and is
  as it was otherwise.
\<close>

theorem onCompletionResolve_frame:
  "label (onCompletionResolve item) = label item
   \<and> kind (onCompletionResolve item) = kind item
   \<and> detail (onCompletionResolve item) = detail item
   \<and> insertText (onCompletionResolve item) = insertText item
   \<and> insertTextFormat (onCompletionResolve item) = insertTextFormat item
   \<and> CompletionItem.more (onCompletionResolve item) = CompletionItem.more item
   \<and> documentation (onCompletionResolve item)
       = (if kind item = Some Keyword
          then Some (DocString (label item @ utf16 '' - A pseudolang keyword''))
          else documentation item)"
  by (simp add: onCompletionResolve_def)

theorem onCompletionResolve_frame_witness:
  "onCompletionResolve (modifierItem (utf16 ''unique''))
     = (modifierItem (utf16 ''unique''))
         \<lparr>documentation := Some (DocString (utf16 ''unique - A pseudolang keyword''))\<rparr>
   \<and> onCompletionResolve (typeItem (utf16 ''uuid'')) = typeItem (utf16 ''uuid'')"
proof -
  have k1: "kind (modifierItem (utf16 ''unique'')) = Some Keyword"
    by (simp add: modifierItem_def)
  have k2: "kind (typeItem (utf16 ''uuid'')) \<noteq> Some Keyword"
    by (simp add: typeItem_def)
  have l: "label (modifierItem (utf16 ''unique'')) @ utf16 '' - A pseudolang keyword''
             = utf16 ''unique - A pseudolang keyword''"
    by (simp add: modifierItem_def utf16_def)
  show ?thesis
    using onCompletionResolve_frame [of "modifierItem (utf16 ''unique'')"]
      onCompletionResolve_frame [of "typeItem (utf16 ''uuid'')"] k1 k2 l
    by (intro conjI CompletionItem.equality) simp_all
qed

section \<open>Properties of the scanner\<close>

text \<open>
  C3. On the one-line text \<^verbatim>\<open>model User Profile:\<close> the scanner publishes exactly one
  diagnostic, a warning on line 0 from column 6 to column 18, which is the substring
  \<^verbatim>\<open>User Profile\<close>, with a message that names \<^verbatim>\<open>model\<close>; on
  \<^verbatim>\<open>model "User Profile":\<close> it publishes none; on \<^verbatim>\<open>page Sign Up:\<close> exactly one
  warning; on \<^verbatim>\<open>page "Sign Up":\<close> none.
\<close>

theorem validateTextDocument_examples:
  \<open>validateTextDocument \<lparr>uri = utf16 ''t.pseudo'', getText = utf16 ''model User Profile:''\<rparr>
     = Inr (utf16 ''t.pseudo'',
         [\<lparr>severity = Warning,
           drange = \<lparr>range_start = \<lparr>line = 0, character = 6\<rparr>,
                     range_end = \<lparr>line = 0, character = 18\<rparr>\<rparr>,
           message = utf16 ''Multi-word model names should be quoted: "User Profile"'',
           source = utf16 ''pseudo-lang''\<rparr>])
   \<and> substring (utf16 ''model User Profile:'') 6 18 = utf16 ''User Profile''
   \<and> validateTextDocument
       \<lparr>uri = utf16 ''t.pseudo'', getText = utf16 ''model "User Profile":''\<rparr>
     = Inr (utf16 ''t.pseudo'', [])
   \<and> validateTextDocument \<lparr>uri = utf16 ''t.pseudo'', getText = utf16 ''page Sign Up:''\<rparr>
     = Inr (utf16 ''t.pseudo'',
         [\<lparr>severity = Warning,
           drange = \<lparr>range_start = \<lparr>line = 0, character = 5\<rparr>,
                     range_end = \<lparr>line = 0, character = 12\<rparr>\<rparr>,
           message = utf16 ''Multi-word page names should be quoted: "Sign Up"'',
           source = utf16 ''pseudo-lang''\<rparr>])
   \<and> validateTextDocument \<lparr>uri = utf16 ''t.pseudo'', getText = utf16 ''page "Sign Up":''\<rparr>
     = Inr (utf16 ''t.pseudo'', [])\<close>
  by (intro conjI; code_simp)

section \<open>Properties of the classification\<close>

text \<open>
  C5. For every prefix, the list the handler builds is the concatenation, in the order
  LineStart, AfterColon, TypePosition, Always, of the contributions of the rules that
  hold of the prefix (the declarations; the properties followed by the actions; the
  types; the modifiers), each rule being the specification's condition and none
  depending on another. In particular, when the prefix ends with a colon followed only
  by whitespace, the rule TypePosition holds too, and the list is the properties, the
  actions, the types and the modifiers. The labels of the list are, accordingly, the
  keywords of these categories in the catalog's order: every properties keyword, every
  actions keyword, then every types keyword, then every modifiers keyword. For a tracked
  document and a line index within its lines, this list, for the prefix cut from the
  line, is what the handler returns.
\<close>

theorem completions_union:
  "completions prefix =
      (if LineStart prefix then map declarationItem KEYWORDS_declarations else [])
    @ (if AfterColon prefix
       then map propertyItem KEYWORDS_properties @ map actionItem KEYWORDS_actions else [])
    @ (if TypePosition prefix then map typeItem KEYWORDS_types else [])
    @ map modifierItem KEYWORDS_modifiers
   \<and> map label (completions prefix) =
        (if LineStart prefix then KEYWORDS_declarations else [])
      @ (if AfterColon prefix then KEYWORDS_properties @ KEYWORDS_actions else [])
      @ (if TypePosition prefix then KEYWORDS_types else [])
      @ KEYWORDS_modifiers
   \<and> (AfterColon prefix \<longrightarrow>
        TypePosition prefix
        \<and> completions prefix =
            map propertyItem KEYWORDS_properties @ map actionItem KEYWORDS_actions
            @ map typeItem KEYWORDS_types @ map modifierItem KEYWORDS_modifiers
        \<and> map label (completions prefix) =
            KEYWORDS_properties @ KEYWORDS_actions @ KEYWORDS_types @ KEYWORDS_modifiers)
   \<and> (documents (textDocument_uri params) = Some document
        \<and> 0 \<le> line (position params)
        \<and> line (position params) < int (length (split newline (getText document)))
        \<and> prefix = substring (split newline (getText document) ! nat (line (position params)))
                      0 (character (position params))
        \<longrightarrow> onCompletion documents params = Inr (completions prefix))"
proof -
  have items: "completions prefix =
      (if LineStart prefix then map declarationItem KEYWORDS_declarations else [])
    @ (if AfterColon prefix
       then map propertyItem KEYWORDS_properties @ map actionItem KEYWORDS_actions else [])
    @ (if TypePosition prefix then map typeItem KEYWORDS_types else [])
    @ map modifierItem KEYWORDS_modifiers"
    by (rule completions_blocks)
  have labels: "map label (completions prefix) =
        (if LineStart prefix then KEYWORDS_declarations else [])
      @ (if AfterColon prefix then KEYWORDS_properties @ KEYWORDS_actions else [])
      @ (if TypePosition prefix then KEYWORDS_types else [])
      @ KEYWORDS_modifiers"
    by (rule label_completions)
  have both: "TypePosition prefix
        \<and> completions prefix =
            map propertyItem KEYWORDS_properties @ map actionItem KEYWORDS_actions
            @ map typeItem KEYWORDS_types @ map modifierItem KEYWORDS_modifiers
        \<and> map label (completions prefix) =
            KEYWORDS_properties @ KEYWORDS_actions @ KEYWORDS_types @ KEYWORDS_modifiers"
    if "AfterColon prefix"
    using that AfterColon_TypePosition [of prefix] AfterColon_not_LineStart [of prefix]
    by (simp add: completions_blocks label_items)
  have handler: "onCompletion documents params = Inr (completions prefix)"
    if "documents (textDocument_uri params) = Some document
        \<and> 0 \<le> line (position params)
        \<and> line (position params) < int (length (split newline (getText document)))
        \<and> prefix = substring (split newline (getText document) ! nat (line (position params)))
                      0 (character (position params))"
    using that by (simp add: onCompletion_in_range)
  from items labels both handler show ?thesis
    by blast
qed

theorem completions_union_witness:
  "AfterColon (utf16 ''path: '')
   \<and> TypePosition (utf16 ''path: '')
   \<and> [utf16 ''a.pseudo'' \<mapsto> \<lparr>uri = utf16 ''a.pseudo'', getText = utf16 ''path: ''\<rparr>]
       (textDocument_uri
         \<lparr>textDocument_uri = utf16 ''a.pseudo'', position = \<lparr>line = 0, character = 6\<rparr>\<rparr>)
       = Some \<lparr>uri = utf16 ''a.pseudo'', getText = utf16 ''path: ''\<rparr>
   \<and> (0::int) < int (length (split newline (utf16 ''path: '')))
   \<and> utf16 ''path: '' = substring (split newline (utf16 ''path: '') ! 0) 0 6
   \<and> onCompletion
       [utf16 ''a.pseudo'' \<mapsto> \<lparr>uri = utf16 ''a.pseudo'', getText = utf16 ''path: ''\<rparr>]
       \<lparr>textDocument_uri = utf16 ''a.pseudo'', position = \<lparr>line = 0, character = 6\<rparr>\<rparr>
       = Inr (completions (utf16 ''path: ''))
   \<and> completions (utf16 ''path: '') =
       map propertyItem KEYWORDS_properties @ map actionItem KEYWORDS_actions
       @ map typeItem KEYWORDS_types @ map modifierItem KEYWORDS_modifiers
   \<and> map label (completions (utf16 ''path: '')) =
       KEYWORDS_properties @ KEYWORDS_actions @ KEYWORDS_types @ KEYWORDS_modifiers"
proof -
  let ?doc = "\<lparr>uri = utf16 ''a.pseudo'', getText = utf16 ''path: ''\<rparr>"
  let ?params =
    "\<lparr>textDocument_uri = utf16 ''a.pseudo'', position = \<lparr>line = 0, character = 6\<rparr>\<rparr>"
  have "test afterColonRe (utf16 ''path: '')"
    by code_simp
  then have ac: "AfterColon (utf16 ''path: '')"
    by (simp only: test_afterColonRe)
  have lines: "split newline (utf16 ''path: '') = [utf16 ''path: '']"
    by code_simp
  have prefix: "substring (utf16 ''path: '') 0 6 = utf16 ''path: ''"
    by code_simp
  have h1: "[utf16 ''a.pseudo'' \<mapsto> ?doc] (textDocument_uri ?params) = Some ?doc"
    by simp
  have h2: "(0::int) < int (length (split newline (utf16 ''path: '')))"
    by (simp add: lines)
  have h3: "utf16 ''path: '' = substring (split newline (utf16 ''path: '') ! 0) 0 6"
    by (simp add: lines prefix)
  have h: "[utf16 ''a.pseudo'' \<mapsto> ?doc] (textDocument_uri ?params) = Some ?doc
        \<and> 0 \<le> line (position ?params)
        \<and> line (position ?params) < int (length (split newline (getText ?doc)))
        \<and> utf16 ''path: '' = substring (split newline (getText ?doc) ! nat (line (position ?params)))
                      0 (character (position ?params))"
    using h2 h3 by simp
  show ?thesis
    using ac h1 h2 h3 h
      completions_union [of "utf16 ''path: ''" "[utf16 ''a.pseudo'' \<mapsto> ?doc]" ?params ?doc]
    by blast
qed


text \<open>
  C6. For a tracked document, a line index within its lines and a prefix that is empty
  or whitespace-only, the handler returns a list that holds, for every keyword of the
  \<^verbatim>\<open>declarations\<close> category, a candidate with that label whose insertText is a
  snippet (format 2) of the form \<^verbatim>\<open>keyword "${1:placeholder}":\<close>; the placeholder
  is \<^verbatim>\<open>ProjectName\<close> for \<^verbatim>\<open>app\<close>, which is a declaration keyword, and
  \<^verbatim>\<open>Name\<close>, a different token, for every other keyword.
\<close>

theorem onCompletion_line_start:
  assumes "documents (textDocument_uri params) = Some document"
    and "0 \<le> line (position params)"
    and "line (position params) < int (length (split newline (getText document)))"
    and "LineStart (substring (split newline (getText document) ! nat (line (position params)))
                      0 (character (position params)))"
  shows \<open>\<exists>items. onCompletion documents params = Inr items
           \<and> (\<forall>keyword\<in>set KEYWORDS_declarations.
                 \<exists>item\<in>set items. label item = keyword
                   \<and> insertTextFormat item = Some 2
                   \<and> insertText item
                       = Some (keyword @ utf16 '' "${1:''
                                 @ (if keyword = utf16 ''app''
                                    then utf16 ''ProjectName'' else utf16 ''Name'')
                                 @ utf16 ''}":''))
           \<and> utf16 ''app'' \<in> set KEYWORDS_declarations
           \<and> utf16 ''ProjectName'' \<noteq> utf16 ''Name''\<close>
proof -
  let ?prefix = "substring (split newline (getText document) ! nat (line (position params))) 0
                   (character (position params))"
  have ret: "onCompletion documents params = Inr (completions ?prefix)"
    using assms(1-3) by (simp add: onCompletion_def at_index_def Let_def)
  have mem: "declarationItem keyword \<in> set (completions ?prefix)"
    if "keyword \<in> set KEYWORDS_declarations" for keyword
    using that assms(4) by (simp add: completions_blocks)
  have item: \<open>\<exists>item\<in>set (completions ?prefix). label item = keyword
                   \<and> insertTextFormat item = Some 2
                   \<and> insertText item
                       = Some (keyword @ utf16 '' "${1:''
                                 @ (if keyword = utf16 ''app''
                                    then utf16 ''ProjectName'' else utf16 ''Name'')
                                 @ utf16 ''}":'')\<close>
    if "keyword \<in> set KEYWORDS_declarations" for keyword
  proof (intro bexI [of _ "declarationItem keyword"] conjI)
    show "declarationItem keyword \<in> set (completions ?prefix)"
      using that by (rule mem)
    show "label (declarationItem keyword) = keyword"
      by (simp add: declarationItem_def)
    show "insertTextFormat (declarationItem keyword) = Some 2"
      by (simp add: declarationItem_def)
    show \<open>insertText (declarationItem keyword)
         = Some (keyword @ utf16 '' "${1:''
               @ (if keyword = utf16 ''app'' then utf16 ''ProjectName'' else utf16 ''Name'')
               @ utf16 ''}":'')\<close>
      by (rule declarationItem_insertText)
  qed
  have app: "utf16 ''app'' \<in> set KEYWORDS_declarations"
    by (simp add: KEYWORDS_declarations_def)
  have ne: "utf16 ''ProjectName'' \<noteq> utf16 ''Name''"
    by (simp add: utf16_def)
  from ret item app ne show ?thesis
    by blast
qed


theorem onCompletion_line_start_witness:
  \<open>[utf16 ''a.pseudo'' \<mapsto> \<lparr>uri = utf16 ''a.pseudo'', getText = utf16 ''  page''\<rparr>]
     (textDocument_uri
       \<lparr>textDocument_uri = utf16 ''a.pseudo'', position = \<lparr>line = 0, character = 2\<rparr>\<rparr>)
     = Some \<lparr>uri = utf16 ''a.pseudo'', getText = utf16 ''  page''\<rparr>
   \<and> (0::int) < int (length (split newline (utf16 ''  page'')))
   \<and> LineStart (substring (split newline (utf16 ''  page'') ! 0) 0 2)
   \<and> (\<exists>items.
        onCompletion
          [utf16 ''a.pseudo'' \<mapsto> \<lparr>uri = utf16 ''a.pseudo'', getText = utf16 ''  page''\<rparr>]
          \<lparr>textDocument_uri = utf16 ''a.pseudo'', position = \<lparr>line = 0, character = 2\<rparr>\<rparr>
          = Inr items
        \<and> (\<forall>keyword\<in>set KEYWORDS_declarations.
              \<exists>item\<in>set items. label item = keyword
                \<and> insertTextFormat item = Some 2
                \<and> insertText item
                    = Some (keyword @ utf16 '' "${1:''
                              @ (if keyword = utf16 ''app''
                                 then utf16 ''ProjectName'' else utf16 ''Name'')
                              @ utf16 ''}":'')))\<close>
proof -
  let ?doc = "\<lparr>uri = utf16 ''a.pseudo'', getText = utf16 ''  page''\<rparr>"
  let ?params =
    "\<lparr>textDocument_uri = utf16 ''a.pseudo'', position = \<lparr>line = 0, character = 2\<rparr>\<rparr>"
  have lines: "split newline (utf16 ''  page'') = [utf16 ''  page'']"
    by code_simp
  have prefix: "substring (utf16 ''  page'') 0 2 = utf16 ''  ''"
    by code_simp
  have h1: "[utf16 ''a.pseudo'' \<mapsto> ?doc] (textDocument_uri ?params) = Some ?doc"
    by simp
  have h2: "0 \<le> line (position ?params)"
    by simp
  have h3: "line (position ?params) < int (length (split newline (getText ?doc)))"
    by (simp add: lines)
  have "test lineStartRe (utf16 ''  '')"
    by code_simp
  then have ls: "LineStart (utf16 ''  '')"
    by (simp only: test_lineStartRe)
  then have h4: "LineStart (substring (split newline (getText ?doc) ! nat (line (position ?params)))
                   0 (character (position ?params)))"
    by (simp add: lines prefix)
  have c2: "(0::int) < int (length (split newline (utf16 ''  page'')))"
    by (simp add: lines)
  have c3: "LineStart (substring (split newline (utf16 ''  page'') ! 0) 0 2)"
    using ls by (simp add: lines prefix)
  show ?thesis
    using h1 c2 c3 onCompletion_line_start
      [of "[utf16 ''a.pseudo'' \<mapsto> ?doc]" ?params ?doc, OF h1 h2 h3 h4]
    by blast
qed

text \<open>
  C4. For every request on a tracked document and a line index within its lines, with the
  prefix the handler cuts from that line, the list the handler returns consists of five
  blocks, one candidate per keyword and in the catalog's order: the declarations when
  LineStart holds, the properties and then the actions when AfterColon holds, the types
  when TypePosition holds, and the modifiers always. Every declaration candidate has
  kind \<^verbatim>\<open>Keyword\<close>, the detail of a declaration and a snippet (format 2) as its
  insertText: the keyword, a quoted placeholder (\<^verbatim>\<open>ProjectName\<close> for \<^verbatim>\<open>app\<close>,
  \<^verbatim>\<open>Name\<close> otherwise) and a colon. Every candidate of the other categories has the
  kind and the detail of its category and leaves insertText and insertTextFormat out, so
  that the text inserted for it is its label, the bare keyword. No candidate has a
  documentation.
\<close>

theorem onCompletion_items:
  assumes "documents (textDocument_uri params) = Some document"
    and "0 \<le> line (position params)"
    and "line (position params) < int (length (split newline (getText document)))"
    and "prefix = substring (split newline (getText document) ! nat (line (position params)))
                    0 (character (position params))"
  shows \<open>\<exists>D P A T M. onCompletion documents params = Inr (D @ P @ A @ T @ M)
     \<and> map label D = (if LineStart prefix then KEYWORDS_declarations else [])
     \<and> map label P = (if AfterColon prefix then KEYWORDS_properties else [])
     \<and> map label A = (if AfterColon prefix then KEYWORDS_actions else [])
     \<and> map label T = (if TypePosition prefix then KEYWORDS_types else [])
     \<and> map label M = KEYWORDS_modifiers
     \<and> (\<forall>item\<in>set D. kind item = Some Keyword
                \<and> detail item = Some (label item @ utf16 '' declaration'')
                \<and> documentation item = None
                \<and> insertTextFormat item = Some 2
                \<and> insertText item
                    = Some (label item @ utf16 '' "${1:''
                              @ (if label item = utf16 ''app''
                                 then utf16 ''ProjectName'' else utf16 ''Name'')
                              @ utf16 ''}":'')
                \<and> insertedText item
                    = label item @ utf16 '' "${1:''
                        @ (if label item = utf16 ''app''
                           then utf16 ''ProjectName'' else utf16 ''Name'')
                        @ utf16 ''}":'')
     \<and> (\<forall>item\<in>set P. kind item = Some Property'
                \<and> detail item = Some (label item @ utf16 '' property'')
                \<and> documentation item = None
                \<and> insertText item = None \<and> insertTextFormat item = None
                \<and> insertedText item = label item)
     \<and> (\<forall>item\<in>set A. kind item = Some Method
                \<and> detail item = Some (label item @ utf16 '' action'')
                \<and> documentation item = None
                \<and> insertText item = None \<and> insertTextFormat item = None
                \<and> insertedText item = label item)
     \<and> (\<forall>item\<in>set T. kind item = Some TypeParameter
                \<and> detail item = Some (label item @ utf16 '' type'')
                \<and> documentation item = None
                \<and> insertText item = None \<and> insertTextFormat item = None
                \<and> insertedText item = label item)
     \<and> (\<forall>item\<in>set M. kind item = Some Keyword
                \<and> detail item = Some (label item @ utf16 '' modifier'')
                \<and> documentation item = None
                \<and> insertText item = None \<and> insertTextFormat item = None
                \<and> insertedText item = label item)\<close>
proof -
  let ?D = "if LineStart prefix then map declarationItem KEYWORDS_declarations else []"
  let ?P = "if AfterColon prefix then map propertyItem KEYWORDS_properties else []"
  let ?A = "if AfterColon prefix then map actionItem KEYWORDS_actions else []"
  let ?T = "if TypePosition prefix then map typeItem KEYWORDS_types else []"
  let ?M = "map modifierItem KEYWORDS_modifiers"
  have "onCompletion documents params = Inr (completions prefix)"
    using assms by (simp add: onCompletion_in_range)
  then have 1: "onCompletion documents params = Inr (?D @ ?P @ ?A @ ?T @ ?M)"
    by (simp add: completions_blocks)
  have 2: "map label ?D = (if LineStart prefix then KEYWORDS_declarations else [])"
    by (simp add: label_declarationItem)
  have 3: "map label ?P = (if AfterColon prefix then KEYWORDS_properties else [])"
    "map label ?A = (if AfterColon prefix then KEYWORDS_actions else [])"
    "map label ?T = (if TypePosition prefix then KEYWORDS_types else [])"
    "map label ?M = KEYWORDS_modifiers"
    by (simp_all add: label_items)
  have 4: \<open>\<forall>item\<in>set ?D. kind item = Some Keyword
           \<and> detail item = Some (label item @ utf16 '' declaration'')
           \<and> documentation item = None
           \<and> insertTextFormat item = Some 2
           \<and> insertText item
               = Some (label item @ utf16 '' "${1:''
                         @ (if label item = utf16 ''app''
                            then utf16 ''ProjectName'' else utf16 ''Name'')
                         @ utf16 ''}":'')
           \<and> insertedText item
               = label item @ utf16 '' "${1:''
                   @ (if label item = utf16 ''app''
                      then utf16 ''ProjectName'' else utf16 ''Name'')
                   @ utf16 ''}":''\<close>
  proof
    fix item assume "item \<in> set ?D"
    then obtain keyword where item: "item = declarationItem keyword"
      by (auto split: if_splits)
    show \<open>kind item = Some Keyword
           \<and> detail item = Some (label item @ utf16 '' declaration'')
           \<and> documentation item = None
           \<and> insertTextFormat item = Some 2
           \<and> insertText item
               = Some (label item @ utf16 '' "${1:''
                         @ (if label item = utf16 ''app''
                            then utf16 ''ProjectName'' else utf16 ''Name'')
                         @ utf16 ''}":'')
           \<and> insertedText item
               = label item @ utf16 '' "${1:''
                   @ (if label item = utf16 ''app''
                      then utf16 ''ProjectName'' else utf16 ''Name'')
                   @ utf16 ''}":''\<close>
      unfolding item using declarationItem_fields [of keyword] by simp
  qed
  have 5: "\<forall>item\<in>set ?P. kind item = Some Property'
           \<and> detail item = Some (label item @ utf16 '' property'')
           \<and> documentation item = None
           \<and> insertText item = None \<and> insertTextFormat item = None
           \<and> insertedText item = label item"
    by (auto simp: propertyItem_def insertedText_def)
  have 6: "\<forall>item\<in>set ?A. kind item = Some Method
           \<and> detail item = Some (label item @ utf16 '' action'')
           \<and> documentation item = None
           \<and> insertText item = None \<and> insertTextFormat item = None
           \<and> insertedText item = label item"
    by (auto simp: actionItem_def insertedText_def)
  have 7: "\<forall>item\<in>set ?T. kind item = Some TypeParameter
           \<and> detail item = Some (label item @ utf16 '' type'')
           \<and> documentation item = None
           \<and> insertText item = None \<and> insertTextFormat item = None
           \<and> insertedText item = label item"
    by (auto simp: typeItem_def insertedText_def)
  have 8: "\<forall>item\<in>set ?M. kind item = Some Keyword
           \<and> detail item = Some (label item @ utf16 '' modifier'')
           \<and> documentation item = None
           \<and> insertText item = None \<and> insertTextFormat item = None
           \<and> insertedText item = label item"
    by (auto simp: modifierItem_def insertedText_def)
  from 1 2 3 4 5 6 7 8 show ?thesis
    by blast
qed

theorem onCompletion_items_witness:
  \<open>LineStart (utf16 '' '') \<and> \<not> AfterColon (utf16 '' '') \<and> \<not> TypePosition (utf16 '' '')
   \<and> utf16 '' '' = substring (split newline (utf16 '' '') ! 0) 0 1
   \<and> (\<exists>D P A T M.
         onCompletion [utf16 ''a.pseudo'' \<mapsto> \<lparr>uri = utf16 ''a.pseudo'', getText = utf16 '' ''\<rparr>]
           \<lparr>textDocument_uri = utf16 ''a.pseudo'', position = \<lparr>line = 0, character = 1\<rparr>\<rparr>
           = Inr (D @ P @ A @ T @ M)
         \<and> map label D = KEYWORDS_declarations
         \<and> map label P = []
         \<and> map label A = []
         \<and> map label T = []
         \<and> map label M = KEYWORDS_modifiers
         \<and> (\<forall>item\<in>set D. kind item = Some Keyword
                    \<and> detail item = Some (label item @ utf16 '' declaration'')
                    \<and> documentation item = None
                    \<and> insertTextFormat item = Some 2
                    \<and> insertText item
                        = Some (label item @ utf16 '' "${1:''
                                  @ (if label item = utf16 ''app''
                                     then utf16 ''ProjectName'' else utf16 ''Name'')
                                  @ utf16 ''}":'')
                    \<and> insertedText item
                        = label item @ utf16 '' "${1:''
                            @ (if label item = utf16 ''app''
                               then utf16 ''ProjectName'' else utf16 ''Name'')
                            @ utf16 ''}":'')
         \<and> (\<forall>item\<in>set P. kind item = Some Property'
                    \<and> detail item = Some (label item @ utf16 '' property'')
                    \<and> documentation item = None
                    \<and> insertText item = None \<and> insertTextFormat item = None
                    \<and> insertedText item = label item)
         \<and> (\<forall>item\<in>set A. kind item = Some Method
                    \<and> detail item = Some (label item @ utf16 '' action'')
                    \<and> documentation item = None
                    \<and> insertText item = None \<and> insertTextFormat item = None
                    \<and> insertedText item = label item)
         \<and> (\<forall>item\<in>set T. kind item = Some TypeParameter
                    \<and> detail item = Some (label item @ utf16 '' type'')
                    \<and> documentation item = None
                    \<and> insertText item = None \<and> insertTextFormat item = None
                    \<and> insertedText item = label item)
         \<and> (\<forall>item\<in>set M. kind item = Some Keyword
                    \<and> detail item = Some (label item @ utf16 '' modifier'')
                    \<and> documentation item = None
                    \<and> insertText item = None \<and> insertTextFormat item = None
                    \<and> insertedText item = label item))
   \<and> \<not> LineStart (utf16 ''path: '') \<and> AfterColon (utf16 ''path: '')
   \<and> TypePosition (utf16 ''path: '')
   \<and> utf16 ''path: '' = substring (split newline (utf16 ''path: '') ! 0) 0 6
   \<and> (\<exists>D P A T M.
         onCompletion [utf16 ''a.pseudo'' \<mapsto> \<lparr>uri = utf16 ''a.pseudo'', getText = utf16 ''path: ''\<rparr>]
           \<lparr>textDocument_uri = utf16 ''a.pseudo'', position = \<lparr>line = 0, character = 6\<rparr>\<rparr>
           = Inr (D @ P @ A @ T @ M)
         \<and> map label D = []
         \<and> map label P = KEYWORDS_properties
         \<and> map label A = KEYWORDS_actions
         \<and> map label T = KEYWORDS_types
         \<and> map label M = KEYWORDS_modifiers
         \<and> (\<forall>item\<in>set D. kind item = Some Keyword
                    \<and> detail item = Some (label item @ utf16 '' declaration'')
                    \<and> documentation item = None
                    \<and> insertTextFormat item = Some 2
                    \<and> insertText item
                        = Some (label item @ utf16 '' "${1:''
                                  @ (if label item = utf16 ''app''
                                     then utf16 ''ProjectName'' else utf16 ''Name'')
                                  @ utf16 ''}":'')
                    \<and> insertedText item
                        = label item @ utf16 '' "${1:''
                            @ (if label item = utf16 ''app''
                               then utf16 ''ProjectName'' else utf16 ''Name'')
                            @ utf16 ''}":'')
         \<and> (\<forall>item\<in>set P. kind item = Some Property'
                    \<and> detail item = Some (label item @ utf16 '' property'')
                    \<and> documentation item = None
                    \<and> insertText item = None \<and> insertTextFormat item = None
                    \<and> insertedText item = label item)
         \<and> (\<forall>item\<in>set A. kind item = Some Method
                    \<and> detail item = Some (label item @ utf16 '' action'')
                    \<and> documentation item = None
                    \<and> insertText item = None \<and> insertTextFormat item = None
                    \<and> insertedText item = label item)
         \<and> (\<forall>item\<in>set T. kind item = Some TypeParameter
                    \<and> detail item = Some (label item @ utf16 '' type'')
                    \<and> documentation item = None
                    \<and> insertText item = None \<and> insertTextFormat item = None
                    \<and> insertedText item = label item)
         \<and> (\<forall>item\<in>set M. kind item = Some Keyword
                    \<and> detail item = Some (label item @ utf16 '' modifier'')
                    \<and> documentation item = None
                    \<and> insertText item = None \<and> insertTextFormat item = None
                    \<and> insertedText item = label item))\<close>
proof -
  let ?doc1 = "\<lparr>uri = utf16 ''a.pseudo'', getText = utf16 '' ''\<rparr>"
  let ?params1 =
    "\<lparr>textDocument_uri = utf16 ''a.pseudo'', position = \<lparr>line = 0, character = 1\<rparr>\<rparr>"
  let ?doc2 = "\<lparr>uri = utf16 ''a.pseudo'', getText = utf16 ''path: ''\<rparr>"
  let ?params2 =
    "\<lparr>textDocument_uri = utf16 ''a.pseudo'', position = \<lparr>line = 0, character = 6\<rparr>\<rparr>"
  have "test lineStartRe (utf16 '' '')" "\<not> test afterColonRe (utf16 '' '')"
    "\<not> test typeRe (utf16 '' '')"
    by code_simp+
  then have rules1: "LineStart (utf16 '' '')" "\<not> AfterColon (utf16 '' '')"
    "\<not> TypePosition (utf16 '' '')"
    by (simp_all add: test_lineStartRe test_afterColonRe test_typeRe)
  have "\<not> test lineStartRe (utf16 ''path: '')" "test afterColonRe (utf16 ''path: '')"
    "test typeRe (utf16 ''path: '')"
    by code_simp+
  then have rules2: "\<not> LineStart (utf16 ''path: '')" "AfterColon (utf16 ''path: '')"
    "TypePosition (utf16 ''path: '')"
    by (simp_all add: test_lineStartRe test_afterColonRe test_typeRe)
  have lines1: "split newline (utf16 '' '') = [utf16 '' '']"
    by code_simp
  have prefix1: "substring (utf16 '' '') 0 1 = utf16 '' ''"
    by code_simp
  have lines2: "split newline (utf16 ''path: '') = [utf16 ''path: '']"
    by code_simp
  have prefix2: "substring (utf16 ''path: '') 0 6 = utf16 ''path: ''"
    by code_simp
  have a1: "[utf16 ''a.pseudo'' \<mapsto> ?doc1] (textDocument_uri ?params1) = Some ?doc1"
    by simp
  have a2: "0 \<le> line (position ?params1)"
    by simp
  have a3: "line (position ?params1) < int (length (split newline (getText ?doc1)))"
    by (simp add: lines1)
  have a4: "utf16 '' '' = substring (split newline (getText ?doc1) ! nat (line (position ?params1)))
                    0 (character (position ?params1))"
    by (simp add: lines1 prefix1)
  have b1: "[utf16 ''a.pseudo'' \<mapsto> ?doc2] (textDocument_uri ?params2) = Some ?doc2"
    by simp
  have b2: "0 \<le> line (position ?params2)"
    by simp
  have b3: "line (position ?params2) < int (length (split newline (getText ?doc2)))"
    by (simp add: lines2)
  have b4: "utf16 ''path: '' = substring (split newline (getText ?doc2) ! nat (line (position ?params2)))
                    0 (character (position ?params2))"
    by (simp add: lines2 prefix2)
  have c1: "utf16 '' '' = substring (split newline (utf16 '' '') ! 0) 0 1"
    by (simp add: lines1 prefix1)
  have c2: "utf16 ''path: '' = substring (split newline (utf16 ''path: '') ! 0) 0 6"
    by (simp add: lines2 prefix2)
  have i1: \<open>(\<exists>D P A T M.
         onCompletion [utf16 ''a.pseudo'' \<mapsto> \<lparr>uri = utf16 ''a.pseudo'', getText = utf16 '' ''\<rparr>]
           \<lparr>textDocument_uri = utf16 ''a.pseudo'', position = \<lparr>line = 0, character = 1\<rparr>\<rparr>
           = Inr (D @ P @ A @ T @ M)
         \<and> map label D = KEYWORDS_declarations
         \<and> map label P = []
         \<and> map label A = []
         \<and> map label T = []
         \<and> map label M = KEYWORDS_modifiers
         \<and> (\<forall>item\<in>set D. kind item = Some Keyword
                    \<and> detail item = Some (label item @ utf16 '' declaration'')
                    \<and> documentation item = None
                    \<and> insertTextFormat item = Some 2
                    \<and> insertText item
                        = Some (label item @ utf16 '' "${1:''
                                  @ (if label item = utf16 ''app''
                                     then utf16 ''ProjectName'' else utf16 ''Name'')
                                  @ utf16 ''}":'')
                    \<and> insertedText item
                        = label item @ utf16 '' "${1:''
                            @ (if label item = utf16 ''app''
                               then utf16 ''ProjectName'' else utf16 ''Name'')
                            @ utf16 ''}":'')
         \<and> (\<forall>item\<in>set P. kind item = Some Property'
                    \<and> detail item = Some (label item @ utf16 '' property'')
                    \<and> documentation item = None
                    \<and> insertText item = None \<and> insertTextFormat item = None
                    \<and> insertedText item = label item)
         \<and> (\<forall>item\<in>set A. kind item = Some Method
                    \<and> detail item = Some (label item @ utf16 '' action'')
                    \<and> documentation item = None
                    \<and> insertText item = None \<and> insertTextFormat item = None
                    \<and> insertedText item = label item)
         \<and> (\<forall>item\<in>set T. kind item = Some TypeParameter
                    \<and> detail item = Some (label item @ utf16 '' type'')
                    \<and> documentation item = None
                    \<and> insertText item = None \<and> insertTextFormat item = None
                    \<and> insertedText item = label item)
         \<and> (\<forall>item\<in>set M. kind item = Some Keyword
                    \<and> detail item = Some (label item @ utf16 '' modifier'')
                    \<and> documentation item = None
                    \<and> insertText item = None \<and> insertTextFormat item = None
                    \<and> insertedText item = label item))\<close>
    using onCompletion_items
      [of "[utf16 ''a.pseudo'' \<mapsto> ?doc1]" ?params1 ?doc1 "utf16 '' ''", OF a1 a2 a3 a4] rules1
    by (simp only: if_True if_False)
  have i2: \<open>(\<exists>D P A T M.
         onCompletion [utf16 ''a.pseudo'' \<mapsto> \<lparr>uri = utf16 ''a.pseudo'', getText = utf16 ''path: ''\<rparr>]
           \<lparr>textDocument_uri = utf16 ''a.pseudo'', position = \<lparr>line = 0, character = 6\<rparr>\<rparr>
           = Inr (D @ P @ A @ T @ M)
         \<and> map label D = []
         \<and> map label P = KEYWORDS_properties
         \<and> map label A = KEYWORDS_actions
         \<and> map label T = KEYWORDS_types
         \<and> map label M = KEYWORDS_modifiers
         \<and> (\<forall>item\<in>set D. kind item = Some Keyword
                    \<and> detail item = Some (label item @ utf16 '' declaration'')
                    \<and> documentation item = None
                    \<and> insertTextFormat item = Some 2
                    \<and> insertText item
                        = Some (label item @ utf16 '' "${1:''
                                  @ (if label item = utf16 ''app''
                                     then utf16 ''ProjectName'' else utf16 ''Name'')
                                  @ utf16 ''}":'')
                    \<and> insertedText item
                        = label item @ utf16 '' "${1:''
                            @ (if label item = utf16 ''app''
                               then utf16 ''ProjectName'' else utf16 ''Name'')
                            @ utf16 ''}":'')
         \<and> (\<forall>item\<in>set P. kind item = Some Property'
                    \<and> detail item = Some (label item @ utf16 '' property'')
                    \<and> documentation item = None
                    \<and> insertText item = None \<and> insertTextFormat item = None
                    \<and> insertedText item = label item)
         \<and> (\<forall>item\<in>set A. kind item = Some Method
                    \<and> detail item = Some (label item @ utf16 '' action'')
                    \<and> documentation item = None
                    \<and> insertText item = None \<and> insertTextFormat item = None
                    \<and> insertedText item = label item)
         \<and> (\<forall>item\<in>set T. kind item = Some TypeParameter
                    \<and> detail item = Some (label item @ utf16 '' type'')
                    \<and> documentation item = None
                    \<and> insertText item = None \<and> insertTextFormat item = None
                    \<and> insertedText item = label item)
         \<and> (\<forall>item\<in>set M. kind item = Some Keyword
                    \<and> detail item = Some (label item @ utf16 '' modifier'')
                    \<and> documentation item = None
                    \<and> insertText item = None \<and> insertTextFormat item = None
                    \<and> insertedText item = label item))\<close>
    using onCompletion_items
      [of "[utf16 ''a.pseudo'' \<mapsto> ?doc2]" ?params2 ?doc2 "utf16 ''path: ''", OF b1 b2 b3 b4]
      rules2
    by (simp only: if_True if_False)
  show ?thesis
    using rules1 c1 i1 rules2 c2 i2 by (intro conjI)
qed

section \<open>The range of a diagnostic\<close>

text \<open>
  C2. The scanner locates the name with \<^verbatim>\<open>line.indexOf(name)\<close>, the first place where
  the text of the name occurs in the line, which need not be where the pattern captured
  it. On the line \<^verbatim>\<open>app p p:\<close> the pattern captures the keyword \<^verbatim>\<open>app\<close> and the name
  \<^verbatim>\<open>p p\<close>, which stands at columns 4 to 7 (the line is \<^verbatim>\<open>app \<close>, the name, and the
  colon); the warning's range is columns 2 to 5, which begins inside the keyword.
\<close>

theorem validateTextDocument_range_first_occurrence:
  \<open>validateTextDocument \<lparr>uri = utf16 ''t.pseudo'', getText = utf16 ''app p p:''\<rparr>
     = Inr (utf16 ''t.pseudo'',
         [\<lparr>severity = Warning,
           drange = \<lparr>range_start = \<lparr>line = 0, character = 2\<rparr>,
                     range_end = \<lparr>line = 0, character = 5\<rparr>\<rparr>,
           message = utf16 ''Multi-word app names should be quoted: "p p"'',
           source = utf16 ''pseudo-lang''\<rparr>])
   \<and> map_option (\<lambda>declarationMatch. (declarationMatch 1, declarationMatch 2))
         (match (utf16 ''app p p:'') declarationRe)
       = Some (Some (utf16 ''app''), Some (utf16 ''p p''))
   \<and> utf16 ''app p p:'' = utf16 ''app '' @ utf16 ''p p'' @ utf16 '':''
   \<and> substring (utf16 ''app p p:'') 4 7 = utf16 ''p p''
   \<and> substring (utf16 ''app p p:'') 0 4 = utf16 ''app ''\<close>
  by (intro conjI; code_simp)

end
